theory Spec2Isabelle
  imports Main "HOL-Library.Product_Lexorder" "HOL-Library.List_Lexorder" "HOL-Library.Char_ord"
    "HOL-Library.Multiset" "HOL-Library.Sublist"
begin

section \<open>Event tables of the session pipeline\<close>

text \<open>
  The preprocessing stages of \<^verbatim>\<open>DataPreprocessor\<close> (data_preprocessing.py) work on one
  pandas table, \<^verbatim>\<open>self.merged_df\<close>, whose rows are app events. A table is modelled as the
  list of the columns it has together with the list of its rows; a stage that the source
  begins with \<^verbatim>\<open>raise ValueError\<close> checks, or that selects a column which is not there
  (pandas raises \<^verbatim>\<open>KeyError\<close>), returns the error as a value.

  Strings are UTF-8 byte lists. Timestamps are the integer nanoseconds since the epoch
  that pandas stores for \<^verbatim>\<open>datetime64[ns, UTC]\<close>; \<open>None\<close> is \<^verbatim>\<open>NaT\<close>, the value an
  unparseable date is coerced to. Durations and counters are unbounded integers: the
  \<^verbatim>\<open>int32\<close> casts of the source are exact below \<open>2^31\<close> seconds (68 years).
\<close>

datatype error = ValueError | KeyError | ZeroDivisionError

text \<open>
  The columns the stages read or write. In the source they are the strings
  "Identifikator ustrojstva" (device id), "Nomer sessii v ramkah ustrojstva" (session
  number within the device), "Data i vremya sobytiya" (event date and time), "Ekran"
  (screen), "Funkcional" (functional area), "Dejstvie" (action), written in Cyrillic, and
  \<^verbatim>\<open>global_session_id\<close>, \<^verbatim>\<open>duration_seconds\<close>, \<^verbatim>\<open>click_count\<close>,
  \<^verbatim>\<open>dbl_duration_seconds\<close>, \<^verbatim>\<open>dbl_count\<close>, \<^verbatim>\<open>is_lost\<close>, \<^verbatim>\<open>is_stay\<close>, \<^verbatim>\<open>is_new\<close>.
\<close>

datatype column =
    Device_id | Session_no | Event_time | Screen | Functional | Action
  | Global_session_id | Duration_seconds | Click_count | Dbl_duration_seconds | Dbl_count
  | Is_lost | Is_stay | Is_new

record event =
  device_id :: int
  session_no :: int
  event_time :: "int option"
  screen :: string
  functional :: string
  action :: string

record 'r frame =
  columns :: "column list"
  rows :: "'r list"

text \<open>\<^verbatim>\<open>sort_values\<close> puts missing values last (\<^verbatim>\<open>na_position='last'\<close>).\<close>

definition na_last :: "int option \<Rightarrow> nat \<times> int" where
  "na_last v = (case v of None \<Rightarrow> (1, 0) | Some x \<Rightarrow> (0, x))"

subsection \<open>Session Identity Resolver: \<^verbatim>\<open>add_global_session_id\<close>\<close>

text \<open>The result of the left join: an event and its \<^verbatim>\<open>global_session_id\<close> cell
  (\<open>None\<close> is the NaN a left join leaves where no right row matches).\<close>

record joined_event = event +
  joined_session_id :: "int option"

definition session_pair :: "'a event_scheme \<Rightarrow> int \<times> int" where
  "session_pair e = (device_id e, session_no e)"

text \<open>\<^verbatim>\<open>drop_duplicates()\<close> keeps the first occurrence of every value.\<close>

fun drop_duplicates :: "'a list \<Rightarrow> 'a list \<Rightarrow> 'a list" where
  "drop_duplicates seen [] = []"
| "drop_duplicates seen (x # xs) =
     (if x \<in> set seen then drop_duplicates seen xs else x # drop_duplicates (x # seen) xs)"

text \<open>The distinct pairs, sorted by (device id, session number), numbered
  \<^verbatim>\<open>range(1, len(unique_sessions) + 1)\<close>.\<close>

definition session_pairs :: "event list \<Rightarrow> (int \<times> int) list" where
  "session_pairs es = sort (drop_duplicates [] (map session_pair es))"

definition unique_sessions :: "event list \<Rightarrow> ((int \<times> int) \<times> int) list" where
  "unique_sessions es =
     (let ps = session_pairs es in zip ps (map int [1 ..< length ps + 1]))"

definition with_session_id :: "event \<Rightarrow> int option \<Rightarrow> joined_event" where
  "with_session_id e g =
     \<lparr>device_id = device_id e, session_no = session_no e, event_time = event_time e,
      screen = screen e, functional = functional e, action = action e,
      joined_session_id = g\<rparr>"

definition event_of :: "joined_event \<Rightarrow> event" where
  "event_of r =
     \<lparr>device_id = device_id r, session_no = session_no r, event_time = event_time r,
      screen = screen r, functional = functional r, action = action r\<rparr>"

text \<open>\<^verbatim>\<open>merge(unique_sessions, on=[device id, session number], how='left')\<close>: every left row
  once for each right row with its pair, or once with NaN when there is none.\<close>

definition merge_left :: "event list \<Rightarrow> ((int \<times> int) \<times> int) list \<Rightarrow> joined_event list" where
  "merge_left es us =
     concat (map (\<lambda>e. case filter (\<lambda>u. fst u = session_pair e) us of
                          [] \<Rightarrow> [with_session_id e None]
                        | ms \<Rightarrow> map (\<lambda>u. with_session_id e (Some (snd u))) ms) es)"

definition joined_sort_key :: "joined_event \<Rightarrow> (nat \<times> int) \<times> (nat \<times> int)" where
  "joined_sort_key r = (na_last (joined_session_id r), na_last (event_time r))"

text \<open>What the resolver needs to succeed: a non-empty table that has the two key columns
  and the time column (the final sort reads it) and has no \<^verbatim>\<open>global_session_id\<close> column
  yet (the join would rename a second one and the next line would not find it).\<close>

definition resolver_input :: "event frame \<Rightarrow> bool" where
  "resolver_input df =
     (rows df \<noteq> [] \<and> Device_id \<in> set (columns df) \<and> Session_no \<in> set (columns df) \<and>
      Event_time \<in> set (columns df) \<and> Global_session_id \<notin> set (columns df))"

definition add_global_session_id :: "event frame option \<Rightarrow> error + joined_event frame" where
  "add_global_session_id merged_df =
     (case merged_df of
        None \<Rightarrow> Inl ValueError
      | Some df \<Rightarrow>
          if rows df = [] then Inl ValueError
          else if Device_id \<notin> set (columns df) \<or> Session_no \<notin> set (columns df)
            then Inl KeyError
          else if Global_session_id \<in> set (columns df) then Inl KeyError
          else if Event_time \<notin> set (columns df) then Inl KeyError
          else Inr \<lparr>columns = columns df @ [Global_session_id],
                    rows = sort_key joined_sort_key
                             (merge_left (rows df) (unique_sessions (rows df)))\<rparr>)"

text \<open>A small table: two devices, three sessions, rows not in session order.\<close>

definition example_event :: "int \<Rightarrow> int \<Rightarrow> int \<Rightarrow> string \<Rightarrow> event" where
  "example_event d n t a =
     \<lparr>device_id = d, session_no = n, event_time = Some t,
      screen = ''Home'', functional = ''Open'', action = a\<rparr>"

definition example_events :: "event frame" where
  "example_events =
     \<lparr>columns = [Event_time, Device_id, Session_no, Screen, Functional, Action],
      rows = [example_event 7 2 50 ''Tap'', example_event 3 1 90 ''Tap'',
              example_event 7 1 10 ''Tap'', example_event 3 1 20 ''Swipe'']\<rparr>"

definition example_events_no_device :: "event frame" where
  "example_events_no_device =
     \<lparr>columns = [Event_time, Session_no, Screen, Functional, Action],
      rows = [example_event 7 2 50 ''Tap'']\<rparr>"


subsection \<open>Rows of the session-annotated table\<close>

text \<open>
  From the Temporal Normalizer on, every row has its integer \<^verbatim>\<open>global_session_id\<close>. The
  four counters are fields of every row; whether the table has the column yet is told by
  \<open>columns\<close>, and a stage that creates a column writes every row's field.
\<close>

record row = event +
  global_session_id :: int
  duration_seconds :: int
  click_count :: int
  dbl_duration_seconds :: int
  dbl_count :: int

text \<open>\<^verbatim>\<open>sort_values(by=['global_session_id', time_col], ascending=[True, True])\<close>: a
  stable sort on the two columns, \<^verbatim>\<open>NaT\<close> last within a session.\<close>

definition row_sort_key :: "row \<Rightarrow> int \<times> (nat \<times> int)" where
  "row_sort_key r = (global_session_id r, na_last (event_time r))"

definition sort_rows :: "row list \<Rightarrow> row list" where
  "sort_rows = sort_key row_sort_key"

definition same_session :: "row \<Rightarrow> row \<Rightarrow> bool" where
  "same_session r x = (global_session_id x = global_session_id r)"

text \<open>\<^verbatim>\<open>astype('int32')\<close> on a whole number. A value of the 32-bit range is kept. Outside
  the range the cast of a 64-bit integer column keeps the low 32 bits, and the cast of a
  floating-point column (the column has, or had, a NaN) gives the least 32-bit value, the
  result of the conversion instruction on x86.\<close>

definition in_int32 :: "int \<Rightarrow> bool" where
  "in_int32 v = (- 2147483648 \<le> v \<and> v < 2147483648)"

definition astype_int32 :: "bool \<Rightarrow> int \<Rightarrow> int" where
  "astype_int32 from_float v =
     (if in_int32 v then v
      else if from_float then - 2147483648
      else (v + 2147483648) mod 4294967296 - 2147483648)"

subsection \<open>Temporal Normalizer: \<^verbatim>\<open>calculate_event_duration\<close>\<close>

text \<open>\<^verbatim>\<open>groupby('global_session_id')[time_col].shift(-1)\<close>: the time of the next row of the
  same session, NaT when there is none. \<open>later\<close> are the rows below \<open>r\<close>.\<close>

definition next_time :: "row list \<Rightarrow> row \<Rightarrow> int option" where
  "next_time later r =
     (case find (same_session r) later of None \<Rightarrow> None | Some x \<Rightarrow> event_time x)"

text \<open>\<^verbatim>\<open>next_time - time\<close>: NaT as soon as one side is NaT.\<close>

definition time_diff :: "int option \<Rightarrow> int option \<Rightarrow> int option" where
  "time_diff a b =
     (case a of None \<Rightarrow> None | Some x \<Rightarrow> (case b of None \<Rightarrow> None | Some y \<Rightarrow> Some (x - y)))"

text \<open>Binary floating point, as far as the seconds need it. \<open>round_half_even p q\<close> is
  the integer nearest to \<open>p / q\<close>, the even one of two that are equally near.\<close>

definition round_half_even :: "int \<Rightarrow> int \<Rightarrow> int" where
  "round_half_even p q =
     (let f = p div q; r = p mod q
      in if 2 * r < q then f else if q < 2 * r then f + 1 else if even f then f else f + 1)"

text \<open>The double nearest to \<open>p / q\<close>, for positive \<open>p\<close> and \<open>q\<close>, as a mantissa \<open>m\<close> and
  an exponent \<open>e\<close>: its value is \<open>m * 2 ^ e\<close>. Doubles between \<open>2 ^ 52\<close> and \<open>2 ^ 53\<close> are
  the integers, and scaling by 2 is exact. The exponent is not bounded; the quotients of
  64-bit integers stay far inside the range of a double.\<close>

function float64 :: "int \<Rightarrow> int \<Rightarrow> int \<times> int" where
  "float64 p q =
     (if p \<le> 0 \<or> q \<le> 0 then (0, 0)
      else if p < 4503599627370496 * q
        then (case float64 (2 * p) q of (m, e) \<Rightarrow> (m, e - 1))
      else if 9007199254740992 * q \<le> p
        then (case float64 p (2 * q) of (m, e) \<Rightarrow> (m, e + 1))
      else (round_half_even p q, 0))"
  by pat_completeness auto
termination
  by (relation "measure (\<lambda>(p, q). nat (4503599627370496 * q - p)
                                + nat (p - 9007199254740992 * q + 1))")
    auto

text \<open>The quotient of two positive 64-bit integers as numpy takes it: both are converted
  to doubles, \<open>d\<close> without loss, and the quotient of the doubles is rounded.\<close>

definition true_divide :: "int \<Rightarrow> int \<Rightarrow> int \<times> int" where
  "true_divide n d =
     (case float64 n 1 of (m1, e1) \<Rightarrow> (case float64 m1 d of (m2, e2) \<Rightarrow> (m2, e1 + e2)))"

text \<open>The whole part of a double that is not negative.\<close>

definition float_trunc :: "int \<times> int \<Rightarrow> int" where
  "float_trunc me =
     (case me of (m, e) \<Rightarrow> if 0 \<le> e then m * 2 ^ nat e else m div 2 ^ nat (- e))"

text \<open>\<^verbatim>\<open>time_diff.dt.total_seconds().fillna(0).astype('int32')\<close>: the nanoseconds divided
  by \<open>10 ^ 9\<close> in floating point (\<^verbatim>\<open>asi8 / 10 ** 9\<close> in pandas), 0 for a missing
  difference, cut to an integer towards zero and cast to 32 bits.\<close>

definition whole_seconds :: "int option \<Rightarrow> int" where
  "whole_seconds d =
     (case d of None \<Rightarrow> 0
      | Some ns \<Rightarrow>
          astype_int32 True (sgn ns * float_trunc (true_divide \<bar>ns\<bar> 1000000000)))"

fun with_durations :: "row list \<Rightarrow> row list" where
  "with_durations [] = []"
| "with_durations (r # later) =
     r\<lparr>duration_seconds := whole_seconds (time_diff (next_time later r) (event_time r))\<rparr>
       # with_durations later"

definition duration_input :: "row frame \<Rightarrow> bool" where
  "duration_input df =
     (rows df \<noteq> [] \<and> Global_session_id \<in> set (columns df) \<and> Event_time \<in> set (columns df))"

definition add_column :: "column \<Rightarrow> column list \<Rightarrow> column list" where
  "add_column c cs = (if c \<in> set cs then cs else cs @ [c])"

definition calculate_event_duration :: "row frame option \<Rightarrow> error + row frame" where
  "calculate_event_duration merged_df =
     (case merged_df of
        None \<Rightarrow> Inl ValueError
      | Some df \<Rightarrow>
          if rows df = [] then Inl ValueError
          else if Global_session_id \<notin> set (columns df) then Inl ValueError
          else if Event_time \<notin> set (columns df) then Inl ValueError
          else Inr \<lparr>columns = add_column Duration_seconds (columns df),
                    rows = with_durations (sort_rows (rows df))\<rparr>)"

text \<open>The rows of one session, in table order, and the words of the specification for
  them: the whole-second gap to the next event, 0 for the last event.\<close>

definition session_rows :: "int \<Rightarrow> row list \<Rightarrow> row list" where
  "session_rows s rs = filter (\<lambda>r. global_session_id r = s) rs"

fun whole_second_gaps :: "int list \<Rightarrow> int list" where
  "whole_second_gaps [] = []"
| "whole_second_gaps [t] = [0]"
| "whole_second_gaps (t # u # ts) = (u - t) div 1000000000 # whole_second_gaps (u # ts)"

definition example_row :: "int \<Rightarrow> int \<Rightarrow> string \<Rightarrow> string \<Rightarrow> int \<Rightarrow> row" where
  "example_row s t sc a d =
     \<lparr>device_id = 3, session_no = s, event_time = Some t,
      screen = sc, functional = ''Open'', action = a,
      global_session_id = s, duration_seconds = d, click_count = 0,
      dbl_duration_seconds = 0, dbl_count = 0\<rparr>"

text \<open>Scenario C: one session with events at 10:00:00, 10:00:05 and 10:00:12 (UTC,
  29 September 2025), after a row of another session.\<close>

definition example_scenario_c :: "row frame" where
  "example_scenario_c =
     \<lparr>columns = [Event_time, Device_id, Session_no, Screen, Functional, Action, Global_session_id],
      rows = [example_row 2 1759140012000000000 ''Home'' ''Tap'' 0,
              example_row 1 1759140000000000000 ''Home'' ''Tap'' 0,
              example_row 2 1759140000000000000 ''Home'' ''Tap'' 0,
              example_row 2 1759140005000000000 ''Home'' ''Tap'' 0]\<rparr>"

text \<open>One session with events 0.6 seconds apart.\<close>

definition example_subsecond :: "row frame" where
  "example_subsecond =
     \<lparr>columns = [Event_time, Device_id, Session_no, Screen, Functional, Action, Global_session_id],
      rows = [example_row 1 1759140000000000000 ''Home'' ''Tap'' 0,
              example_row 1 1759140000600000000 ''Home'' ''Tap'' 0,
              example_row 1 1759140001200000000 ''Home'' ''Tap'' 0]\<rparr>"


definition session_durations :: "int \<Rightarrow> error + row frame \<Rightarrow> int list" where
  "session_durations s res =
     (case res of Inl e \<Rightarrow> [] | Inr out \<Rightarrow> map duration_seconds (session_rows s (rows out)))"


subsection \<open>Duplicate Collapser, first pass: \<^verbatim>\<open>remove_consecutive_duplicates_with_clicks\<close>\<close>

text \<open>The sentinel action "Ne ukazano" (not specified), in UTF-8.\<close>

definition not_specified :: string where
  "not_specified =
     [CHR 0xD0, CHR 0x9D, CHR 0xD0, CHR 0xB5, CHR 0x20, CHR 0xD1, CHR 0x83, CHR 0xD0, CHR 0xBA,
      CHR 0xD0, CHR 0xB0, CHR 0xD0, CHR 0xB7, CHR 0xD0, CHR 0xB0, CHR 0xD0, CHR 0xBD, CHR 0xD0,
      CHR 0xBE]"

text \<open>\<^verbatim>\<open>key_parts[0] + '|' + key_parts[1] + '|' + key_parts[2]\<close> over screen, functional
  and action.\<close>

definition comparison_key :: "row \<Rightarrow> string" where
  "comparison_key r = screen r @ ''|'' @ functional r @ ''|'' @ action r"

text \<open>\<^verbatim>\<open>groupby('global_session_id')['comparison_key'].shift(1)\<close>: the key of the previous
  row of the same session, NaN when there is none. \<open>prior\<close> are the rows over \<open>r\<close>,
  the nearest first.\<close>

definition prev_key :: "row list \<Rightarrow> row \<Rightarrow> string option" where
  "prev_key prior r = map_option comparison_key (find (same_session r) prior)"

definition is_duplicate :: "row list \<Rightarrow> row \<Rightarrow> bool" where
  "is_duplicate prior r = (prev_key prior r = Some (comparison_key r))"

text \<open>\<^verbatim>\<open>(~is_duplicate) | (global_session_id != global_session_id.shift(1))\<close>; the shift
  of the first row is NaN, which differs from every id.\<close>

definition new_group :: "row list \<Rightarrow> row \<Rightarrow> bool" where
  "new_group prior r =
     (\<not> is_duplicate prior r \<or>
      (case prior of [] \<Rightarrow> True | p # _ \<Rightarrow> global_session_id r \<noteq> global_session_id p))"

text \<open>\<^verbatim>\<open>flag.cumsum()\<close> followed by \<^verbatim>\<open>groupby\<close> on the sum: the table is cut in front of
  every row whose flag is set, and the pieces are the groups, in table order.\<close>

fun group_by_cumsum :: "('a list \<Rightarrow> 'a \<Rightarrow> bool) \<Rightarrow> 'a list \<Rightarrow> 'a list \<Rightarrow> 'a list list" where
  "group_by_cumsum flag prior [] = []"
| "group_by_cumsum flag prior [r] = [[r]]"
| "group_by_cumsum flag prior (r # x # rs) =
     (if flag (r # prior) x then [r] # group_by_cumsum flag (r # prior) (x # rs)
      else (case group_by_cumsum flag (r # prior) (x # rs) of
              [] \<Rightarrow> [[r]]
            | g # gs \<Rightarrow> (r # g) # gs))"

definition is_meaningful_action :: "row \<Rightarrow> bool" where
  "is_meaningful_action r = (action r \<noteq> not_specified)"

text \<open>The row kept for a group is its last row, with
  \<^verbatim>\<open>click_count = meaningful_actions_count.clip(lower=1)\<close>,
  \<^verbatim>\<open>duration_seconds = total_duration\<close>, \<^verbatim>\<open>dbl_duration_seconds\<close> the summed duration of
  the rows that are not last (0 when there is none), after
  \<^verbatim>\<open>.map(removed_duration_by_group).fillna(0).astype('int32')\<close>, and
  \<^verbatim>\<open>dbl_count = group_size - 1\<close>.\<close>

definition collapse_group :: "bool \<Rightarrow> row list \<Rightarrow> row" where
  "collapse_group from_float g =
     (last g)\<lparr>click_count := max 1 (int (length (filter is_meaningful_action g))),
              duration_seconds := sum_list (map duration_seconds g),
              dbl_duration_seconds :=
                astype_int32 from_float (sum_list (map duration_seconds (butlast g))),
              dbl_count := int (length g) - 1\<rparr>"

text \<open>\<^verbatim>\<open>removed_duration_by_group\<close> has no entry for a group of one row, so the mapped
  series has a NaN, and is a floating-point series, as soon as the table has such a
  group; it is an integer series when every group has a removed row.\<close>

definition removed_duration_is_float :: "row list list \<Rightarrow> bool" where
  "removed_duration_is_float gs = list_ex (\<lambda>g. length g = 1) gs"

text \<open>The columns the pass creates first, ahead of any look at the rows: the three counters, set
  to 0 in every row, and \<^verbatim>\<open>duration_seconds\<close>, set to 0 when the table has none.\<close>

definition init_counters :: "column list \<Rightarrow> row \<Rightarrow> row" where
  "init_counters cs r =
     r\<lparr>click_count := 0, dbl_duration_seconds := 0, dbl_count := 0,
       duration_seconds := (if Duration_seconds \<in> set cs then duration_seconds r else 0)\<rparr>"

definition collapse_runs :: "row list \<Rightarrow> row list" where
  "collapse_runs rs =
     (let gs = group_by_cumsum new_group [] rs
      in map (collapse_group (removed_duration_is_float gs)) gs)"

definition remove_consecutive_duplicates_with_clicks :: "row frame option \<Rightarrow> error + row frame" where
  "remove_consecutive_duplicates_with_clicks merged_df =
     (case merged_df of
        None \<Rightarrow> Inl ValueError
      | Some df \<Rightarrow>
          if rows df = [] then Inl ValueError
          else if Global_session_id \<notin> set (columns df) then Inl ValueError
          else if Screen \<notin> set (columns df) \<or> Functional \<notin> set (columns df)
                  \<or> Action \<notin> set (columns df) then Inl ValueError
          else if Event_time \<notin> set (columns df) then Inl KeyError
          else Inr \<lparr>columns = add_column Duration_seconds (add_column Dbl_count
                      (add_column Dbl_duration_seconds (add_column Click_count (columns df)))),
                    rows = collapse_runs (sort_rows (map (init_counters (columns df)) (rows df)))\<rparr>)"

definition collapse_input :: "row frame \<Rightarrow> bool" where
  "collapse_input df =
     (rows df \<noteq> [] \<and> Global_session_id \<in> set (columns df) \<and> Screen \<in> set (columns df) \<and>
      Functional \<in> set (columns df) \<and> Action \<in> set (columns df) \<and>
      Event_time \<in> set (columns df))"

text \<open>The maximal runs of consecutive rows with one value of \<open>k\<close>: what the cuts come
  to when the flag of a row says that \<open>k\<close> differs from the row just over it.\<close>

fun runs :: "('a \<Rightarrow> 'k) \<Rightarrow> 'a list \<Rightarrow> 'a list list" where
  "runs k [] = []"
| "runs k [r] = [[r]]"
| "runs k (r # x # rs) =
     (if k r \<noteq> k x then [r] # runs k (x # rs)
      else (case runs k (x # rs) of [] \<Rightarrow> [[r]] | g # gs \<Rightarrow> (r # g) # gs))"

definition run_key :: "row \<Rightarrow> int \<times> string" where
  "run_key r = (global_session_id r, comparison_key r)"


definition reset_counters :: "row \<Rightarrow> row" where
  "reset_counters r = r\<lparr>click_count := 1, dbl_duration_seconds := 0, dbl_count := 0\<rparr>"

text \<open>Running a pass on its own result.\<close>

definition twice :: "(row frame option \<Rightarrow> error + row frame) \<Rightarrow> row frame \<Rightarrow> error + row frame" where
  "twice pass df = (case pass (Some df) of Inl e \<Rightarrow> Inl e | Inr out \<Rightarrow> pass (Some out))"

text \<open>On screen "Home" two rows without an action (3 and 2 seconds) and two taps (5 and
  5 seconds), followed by a row of the next session.\<close>

definition example_clicks :: "row frame" where
  "example_clicks =
     \<lparr>columns = [Event_time, Device_id, Session_no, Screen, Functional, Action,
                 Global_session_id, Duration_seconds],
      rows = [example_row 1 1759140000000000000 ''Home'' not_specified 3,
              example_row 1 1759140003000000000 ''Home'' not_specified 2,
              example_row 1 1759140005000000000 ''Home'' ''Tap'' 5,
              example_row 1 1759140010000000000 ''Home'' ''Tap'' 5,
              example_row 2 1759140000000000000 ''Home'' ''Tap'' 0]\<rparr>"



definition result_rows :: "error + row frame \<Rightarrow> row list" where
  "result_rows res = (case res of Inl e \<Rightarrow> [] | Inr out \<Rightarrow> rows out)"

definition counters :: "row \<Rightarrow> int \<times> int \<times> int \<times> int" where
  "counters r = (duration_seconds r, click_count r, dbl_duration_seconds r, dbl_count r)"


subsection \<open>Duplicate Collapser, second pass: \<^verbatim>\<open>collapse_intermediate_screens\<close>\<close>

text \<open>\<^verbatim>\<open>groupby('global_session_id')[screen_col].shift(1)\<close>: the screen of the previous row
  of the same session, NaN when there is none.\<close>

definition prev_screen :: "row list \<Rightarrow> row \<Rightarrow> string option" where
  "prev_screen prior r = map_option screen (find (same_session r) prior)"

text \<open>\<^verbatim>\<open>(screen != prev_screen) | (global_session_id != global_session_id.shift(1))\<close>.\<close>

definition screen_changed :: "row list \<Rightarrow> row \<Rightarrow> bool" where
  "screen_changed prior r =
     (prev_screen prior r \<noteq> Some (screen r) \<or>
      (case prior of [] \<Rightarrow> True | p # _ \<Rightarrow> global_session_id r \<noteq> global_session_id p))"

text \<open>The body of the loop over the screen groups. A group of one row, a group without a
  sentinel row and a group of sentinel rows only are left alone; otherwise the sentinel
  rows are marked for removal and their summed duration is added to the first row that
  is not a sentinel row.\<close>

definition collapse_screen_group :: "row list \<Rightarrow> row list" where
  "collapse_screen_group g =
     (let not_specified_rows = filter (\<lambda>r. action r = not_specified) g;
          meaningful_rows = filter (\<lambda>r. action r \<noteq> not_specified) g
      in if length g < 2 then g
         else if not_specified_rows = [] then g
         else if meaningful_rows = [] then g
         else (hd meaningful_rows)
                \<lparr>duration_seconds := duration_seconds (hd meaningful_rows)
                   + sum_list (map duration_seconds not_specified_rows)\<rparr>
              # tl meaningful_rows)"

definition collapse_screens :: "row list \<Rightarrow> row list" where
  "collapse_screens rs =
     concat (map collapse_screen_group (group_by_cumsum screen_changed [] rs))"

definition fill_duration :: "column list \<Rightarrow> row \<Rightarrow> row" where
  "fill_duration cs r = (if Duration_seconds \<in> set cs then r else r\<lparr>duration_seconds := 0\<rparr>)"

definition collapse_intermediate_screens :: "row frame option \<Rightarrow> error + row frame" where
  "collapse_intermediate_screens merged_df =
     (case merged_df of
        None \<Rightarrow> Inl ValueError
      | Some df \<Rightarrow>
          if rows df = [] then Inl ValueError
          else if Global_session_id \<notin> set (columns df) then Inl ValueError
          else if Event_time \<notin> set (columns df) then Inl KeyError
          else if Screen \<notin> set (columns df) then Inl KeyError
          else if Action \<notin> set (columns df) then Inl KeyError
          else Inr \<lparr>columns = add_column Duration_seconds (columns df),
                    rows = collapse_screens
                             (sort_rows (map (fill_duration (columns df)) (rows df)))\<rparr>)"

definition screen_input :: "row frame \<Rightarrow> bool" where
  "screen_input df =
     (rows df \<noteq> [] \<and> Global_session_id \<in> set (columns df) \<and> Event_time \<in> set (columns df) \<and>
      Screen \<in> set (columns df) \<and> Action \<in> set (columns df) \<and>
      Duration_seconds \<in> set (columns df))"

definition screen_run_key :: "row \<Rightarrow> int \<times> string" where
  "screen_run_key r = (global_session_id r, screen r)"

text \<open>The example of the method's documentation: on screen "New" two rows without an
  action (5 and 3 seconds), a tap (10 seconds) and a choice (5 seconds), then two rows
  without an action on screen "List".\<close>

definition example_screens :: "row frame" where
  "example_screens =
     \<lparr>columns = [Event_time, Device_id, Session_no, Screen, Functional, Action,
                 Global_session_id, Duration_seconds],
      rows = [example_row 1 1759140000000000000 ''New'' not_specified 5,
              example_row 1 1759140005000000000 ''New'' not_specified 3,
              example_row 1 1759140008000000000 ''New'' ''Tap'' 10,
              example_row 1 1759140018000000000 ''New'' ''Choose'' 5,
              example_row 1 1759140023000000000 ''List'' not_specified 4,
              example_row 1 1759140027000000000 ''List'' not_specified 0]\<rparr>"


subsection \<open>Trailing menu events: \<^verbatim>\<open>remove_trailing_empty_screens\<close>\<close>

text \<open>The screen "Eshche" (more) and the functional "Otkrytie ekrana" (screen opening), in
  UTF-8; the target action is the sentinel.\<close>

definition target_screen :: string where
  "target_screen = [CHR 0xD0, CHR 0x95, CHR 0xD1, CHR 0x89, CHR 0xD0, CHR 0xB5]"

definition target_function :: string where
  "target_function =
     [CHR 0xD0, CHR 0x9E, CHR 0xD1, CHR 0x82, CHR 0xD0, CHR 0xBA, CHR 0xD1, CHR 0x80, CHR 0xD1,
      CHR 0x8B, CHR 0xD1, CHR 0x82, CHR 0xD0, CHR 0xB8, CHR 0xD0, CHR 0xB5, CHR 0x20, CHR 0xD1,
      CHR 0x8D, CHR 0xD0, CHR 0xBA, CHR 0xD1, CHR 0x80, CHR 0xD0, CHR 0xB0, CHR 0xD0, CHR 0xBD,
      CHR 0xD0, CHR 0xB0]"

definition target_action :: string where
  "target_action = not_specified"

text \<open>\<^verbatim>\<open>groupby('global_session_id', sort=False).tail(1)\<close>: the rows with no row of their
  session below them. \<open>later\<close> are the rows below \<open>r\<close>.\<close>

definition is_last_in_session :: "row list \<Rightarrow> row \<Rightarrow> bool" where
  "is_last_in_session later r = (find (same_session r) later = None)"

definition is_target :: "row \<Rightarrow> bool" where
  "is_target r =
     (screen r = target_screen \<and> functional r = target_function \<and> action r = target_action)"

definition to_remove :: "row list \<Rightarrow> row \<Rightarrow> bool" where
  "to_remove later r = (is_last_in_session later r \<and> is_target r)"

text \<open>The table with its \<^verbatim>\<open>to_remove\<close> column.\<close>

fun mark_to_remove :: "row list \<Rightarrow> (row \<times> bool) list" where
  "mark_to_remove [] = []"
| "mark_to_remove (r # later) = (r, to_remove later r) # mark_to_remove later"


text \<open>The filter \<^verbatim>\<open>merged_df[~merged_df['to_remove']]\<close> alone.\<close>

definition unmarked_rows :: "row list \<Rightarrow> row list" where
  "unmarked_rows rs = map fst (filter (\<lambda>m. \<not> snd m) (mark_to_remove rs))"









subsection \<open>Cohort Labeler: \<^verbatim>\<open>add_user_cohort_status\<close>\<close>

text \<open>\<^verbatim>\<open>.dt.month\<close> of a UTC timestamp: the month, 1 to 12, of the proleptic Gregorian
  calendar day that holds the instant, computed from the day number since 1 January 1970
  over 400-year eras that start on 1 March.\<close>

definition dt_month :: "int \<Rightarrow> nat" where
  "dt_month ns =
     (let days = ns div 86400000000000;
          z = days + 719468;
          era = z div 146097;
          doe = z - era * 146097;
          yoe = (doe - doe div 1460 + doe div 36524 - doe div 146096) div 365;
          doy = doe - (365 * yoe + yoe div 4 - yoe div 100);
          mp = (5 * doy + 2) div 153
      in nat (if mp < 10 then mp + 3 else mp - 9))"

text \<open>The \<^verbatim>\<open>_temp_month\<close> cell of a row: NaN for NaT.\<close>

definition temp_month :: "event \<Rightarrow> nat option" where
  "temp_month r = map_option dt_month (event_time r)"

text \<open>\<^verbatim>\<open>groupby(device id)['_temp_month'].apply(lambda x: set(x.dropna().unique()))\<close> as a
  dictionary: one entry for each device of the table, with the months of its rows.\<close>

definition device_months :: "event list \<Rightarrow> int \<Rightarrow> nat list" where
  "device_months rs d =
     List.map_filter (\<lambda>r. if device_id r = d then temp_month r else None) rs"

definition user_months :: "event list \<Rightarrow> (int \<times> nat list) list" where
  "user_months rs = map (\<lambda>d. (d, device_months rs d)) (sort (remdups (map device_id rs)))"

record cohort_status =
  is_lost :: bool
  is_stay :: bool
  is_new :: bool

definition classify :: "nat list \<Rightarrow> cohort_status" where
  "classify months =
     (let has_september = (9 \<in> set months);
          has_october = (10 \<in> set months)
      in if has_september \<and> \<not> has_october
           then \<lparr>is_lost = True, is_stay = False, is_new = False\<rparr>
         else if has_september \<and> has_october
           then \<lparr>is_lost = False, is_stay = True, is_new = False\<rparr>
         else if \<not> has_september \<and> has_october
           then \<lparr>is_lost = False, is_stay = False, is_new = True\<rparr>
         else \<lparr>is_lost = False, is_stay = False, is_new = False\<rparr>)"

definition user_status :: "event list \<Rightarrow> int \<rightharpoonup> cohort_status" where
  "user_status rs = map_of (map (\<lambda>(user_id, months). (user_id, classify months)) (user_months rs))"

text \<open>\<^verbatim>\<open>user_status.get(x, {}).get(flag, False)\<close> for the three flags of a row.\<close>

definition row_status :: "event list \<Rightarrow> event \<Rightarrow> cohort_status" where
  "row_status rs r =
     (case user_status rs (device_id r) of
        None \<Rightarrow> \<lparr>is_lost = False, is_stay = False, is_new = False\<rparr>
      | Some st \<Rightarrow> st)"

definition add_user_cohort_status :: "event frame option \<Rightarrow> error + (event \<times> cohort_status) frame" where
  "add_user_cohort_status df_arg =
     (case df_arg of
        None \<Rightarrow> Inl ValueError
      | Some df \<Rightarrow>
          if rows df = [] then Inl ValueError
          else if Event_time \<notin> set (columns df) \<or> Device_id \<notin> set (columns df)
            then Inl ValueError
          else Inr \<lparr>columns = add_column Is_new (add_column Is_stay
                                (add_column Is_lost (columns df))),
                    rows = map (\<lambda>r. (r, row_status (rows df) r)) (rows df)\<rparr>)"

definition cohort_input :: "event frame \<Rightarrow> bool" where
  "cohort_input df =
     (rows df \<noteq> [] \<and> Event_time \<in> set (columns df) \<and> Device_id \<in> set (columns df))"

text \<open>The words of the specification: the device has at least one event in the month.\<close>

definition active_in :: "event list \<Rightarrow> int \<Rightarrow> nat \<Rightarrow> bool" where
  "active_in rs d m = list_ex (\<lambda>x. device_id x = d \<and> temp_month x = Some m) rs"

text \<open>Device 1 is seen on 15 September 2025 only, device 2 on 15 September and
  20 October, device 3 on 20 October only, device 4 on 15 August and on a row without a
  valid date.\<close>

definition cohort_event :: "int \<Rightarrow> int option \<Rightarrow> event" where
  "cohort_event d t =
     \<lparr>device_id = d, session_no = 1, event_time = t,
      screen = ''Home'', functional = ''Open'', action = ''Tap''\<rparr>"

definition example_cohorts :: "event frame" where
  "example_cohorts =
     \<lparr>columns = [Event_time, Device_id, Session_no, Screen, Functional, Action],
      rows = [cohort_event 1 (Some 1757894400000000000),
              cohort_event 2 (Some 1757894400000000000),
              cohort_event 3 (Some 1760918400000000000),
              cohort_event 4 (Some 1755216000000000000),
              cohort_event 2 (Some 1760918400000000000),
              cohort_event 1 (Some 1757898000000000000),
              cohort_event 4 None]\<rparr>"


text \<open>Device id and the flags \<^verbatim>\<open>is_lost\<close>, \<^verbatim>\<open>is_stay\<close>, \<^verbatim>\<open>is_new\<close> of every row of a
  result.\<close>

definition labelled_rows ::
  "error + (event \<times> cohort_status) frame \<Rightarrow> (int \<times> bool \<times> bool \<times> bool) list" where
  "labelled_rows res =
     (case res of
        Inl e \<Rightarrow> []
      | Inr out \<Rightarrow> map (\<lambda>(r, st). (device_id r, is_lost st, is_stay st, is_new st)) (rows out))"


section \<open>Funnel feature extraction\<close>

subsection \<open>Taxonomy Lookup: \<^verbatim>\<open>_build_action_lookup\<close>\<close>

text \<open>
  The taxonomy document of \<^verbatim>\<open>FunnelFeaturesExtractor\<close> (funnel_features_extractor.py):
  blocks, each with groups of one screen and functional, each group with five lists of
  actions. A list that the document leaves out is empty (\<^verbatim>\<open>group.get(action_type, [])\<close>);
  an action may carry a \<^verbatim>\<open>step\<close>.
\<close>

record action_obj =
  obj_action :: string
  obj_step :: "int option"

record action_group =
  group_screen :: string
  group_functional :: string
  regular_actions :: "action_obj list"
  cancel_actions :: "action_obj list"
  exit_actions :: "action_obj list"
  success_review :: "action_obj list"
  success_actions :: "action_obj list"

record block =
  block_name :: string
  block_groups :: "action_group list"

type_synonym action_key = "string \<times> string \<times> string"

text \<open>The three dictionaries the method returns: \<^verbatim>\<open>action_to_block\<close>,
  \<^verbatim>\<open>success_actions\<close>, \<^verbatim>\<open>review_actions\<close>.\<close>

type_synonym lookups =
  "(action_key \<rightharpoonup> string \<times> int) \<times> (action_key \<rightharpoonup> string) \<times> (action_key \<rightharpoonup> string)"

definition group_key :: "action_group \<Rightarrow> action_obj \<Rightarrow> action_key" where
  "group_key g a = (group_screen g, group_functional g, obj_action a)"

text \<open>\<^verbatim>\<open>action_obj.get('step', 0)\<close>.\<close>

definition step_or_zero :: "action_obj \<Rightarrow> int" where
  "step_or_zero a = (case obj_step a of None \<Rightarrow> 0 | Some n \<Rightarrow> n)"

text \<open>The body of the loop over the groups of a block. The first loop runs over
  \<^verbatim>\<open>['regular_actions', 'cancel_actions', 'exit_actions', 'success_actions']\<close>.\<close>

definition add_group :: "string \<Rightarrow> action_group \<Rightarrow> lookups \<Rightarrow> lookups" where
  "add_group name g L =
     (case L of (to_block, success, review) \<Rightarrow>
        (fold (\<lambda>a m. m(group_key g a \<mapsto> (name, step_or_zero a)))
           (regular_actions g @ cancel_actions g @ exit_actions g @ success_actions g) to_block,
         fold (\<lambda>a m. m(group_key g a \<mapsto> name)) (success_actions g) success,
         fold (\<lambda>a m. m(group_key g a \<mapsto> name)) (success_review g) review))"

definition build_action_lookup :: "block list \<Rightarrow> lookups" where
  "build_action_lookup blocks_data =
     fold (\<lambda>b L. fold (add_group (block_name b)) (block_groups b) L) blocks_data
       (Map.empty, Map.empty, Map.empty)"

definition action_to_block :: "lookups \<Rightarrow> action_key \<rightharpoonup> string \<times> int" where
  "action_to_block L = fst L"

definition success_lookup :: "lookups \<Rightarrow> action_key \<rightharpoonup> string" where
  "success_lookup L = fst (snd L)"

definition review_lookup :: "lookups \<Rightarrow> action_key \<rightharpoonup> string" where
  "review_lookup L = snd (snd L)"

text \<open>A taxonomy of one block with one group: a tap as regular action with step 1, and
  a view that is listed as success-review only.\<close>

definition example_taxonomy :: "block list" where
  "example_taxonomy =
     [\<lparr>block_name = ''Profile'',
       block_groups =
         [\<lparr>group_screen = ''Home'', group_functional = ''Open'',
           regular_actions = [\<lparr>obj_action = ''Tap'', obj_step = Some 1\<rparr>],
           cancel_actions = [], exit_actions = [],
           success_review = [\<lparr>obj_action = ''View'', obj_step = Some 2\<rparr>],
           success_actions = []\<rparr>]\<rparr>]"


subsection \<open>Block prefixes: \<^verbatim>\<open>_generate_prefixes\<close>\<close>

text \<open>The prefix table of the method. The seventeen block names are Russian, given here
  in UTF-8; in the order of the table they mean: create request, view and manage
  requests, profile, navigation, notifications, polls and owner meetings, points and
  rewards, my home, partner services, transport management, view announcements, smart
  solutions, support, guest access, city services, create address, create announcement.\<close>

definition prefixes_map :: "(string \<times> string) list" where
  "prefixes_map =
     [([CHR 0xD0, CHR 0xA1, CHR 0xD0, CHR 0xBE, CHR 0xD0, CHR 0xB7, CHR 0xD0, CHR 0xB4,
         CHR 0xD0, CHR 0xB0, CHR 0xD0, CHR 0xBD, CHR 0xD0, CHR 0xB8, CHR 0xD0, CHR 0xB5,
         CHR 0x20, CHR 0xD0, CHR 0xB7, CHR 0xD0, CHR 0xB0, CHR 0xD1, CHR 0x8F, CHR 0xD0,
         CHR 0xB2, CHR 0xD0, CHR 0xBA, CHR 0xD0, CHR 0xB8],
        ''request''),
       ([CHR 0xD0, CHR 0x9F, CHR 0xD1, CHR 0x80, CHR 0xD0, CHR 0xBE, CHR 0xD1, CHR 0x81,
         CHR 0xD0, CHR 0xBC, CHR 0xD0, CHR 0xBE, CHR 0xD1, CHR 0x82, CHR 0xD1, CHR 0x80,
         CHR 0x20, CHR 0xD0, CHR 0xB8, CHR 0x20, CHR 0xD1, CHR 0x83, CHR 0xD0, CHR 0xBF,
         CHR 0xD1, CHR 0x80, CHR 0xD0, CHR 0xB0, CHR 0xD0, CHR 0xB2, CHR 0xD0, CHR 0xBB,
         CHR 0xD0, CHR 0xB5, CHR 0xD0, CHR 0xBD, CHR 0xD0, CHR 0xB8, CHR 0xD0, CHR 0xB5,
         CHR 0x20, CHR 0xD0, CHR 0xB7, CHR 0xD0, CHR 0xB0, CHR 0xD1, CHR 0x8F, CHR 0xD0,
         CHR 0xB2, CHR 0xD0, CHR 0xBA, CHR 0xD0, CHR 0xB0, CHR 0xD0, CHR 0xBC, CHR 0xD0,
         CHR 0xB8],
        ''req_manage''),
       ([CHR 0xD0, CHR 0x9F, CHR 0xD1, CHR 0x80, CHR 0xD0, CHR 0xBE, CHR 0xD1, CHR 0x84,
         CHR 0xD0, CHR 0xB8, CHR 0xD0, CHR 0xBB, CHR 0xD1, CHR 0x8C],
        ''profile''),
       ([CHR 0xD0, CHR 0x9D, CHR 0xD0, CHR 0xB0, CHR 0xD0, CHR 0xB2, CHR 0xD0, CHR 0xB8,
         CHR 0xD0, CHR 0xB3, CHR 0xD0, CHR 0xB0, CHR 0xD1, CHR 0x86, CHR 0xD0, CHR 0xB8,
         CHR 0xD1, CHR 0x8F],
        ''nav''),
       ([CHR 0xD0, CHR 0xA3, CHR 0xD0, CHR 0xB2, CHR 0xD0, CHR 0xB5, CHR 0xD0, CHR 0xB4,
         CHR 0xD0, CHR 0xBE, CHR 0xD0, CHR 0xBC, CHR 0xD0, CHR 0xBB, CHR 0xD0, CHR 0xB5,
         CHR 0xD0, CHR 0xBD, CHR 0xD0, CHR 0xB8, CHR 0xD1, CHR 0x8F],
        ''notif''),
       ([CHR 0xD0, CHR 0x9E, CHR 0xD0, CHR 0xBF, CHR 0xD1, CHR 0x80, CHR 0xD0, CHR 0xBE,
         CHR 0xD1, CHR 0x81, CHR 0xD1, CHR 0x8B, CHR 0x20, CHR 0xD0, CHR 0xB8, CHR 0x20,
         CHR 0xD1, CHR 0x81, CHR 0xD0, CHR 0xBE, CHR 0xD0, CHR 0xB1, CHR 0xD1, CHR 0x80,
         CHR 0xD0, CHR 0xB0, CHR 0xD0, CHR 0xBD, CHR 0xD0, CHR 0xB8, CHR 0xD1, CHR 0x8F,
         CHR 0x20, CHR 0xD1, CHR 0x81, CHR 0xD0, CHR 0xBE, CHR 0xD0, CHR 0xB1, CHR 0xD1,
         CHR 0x81, CHR 0xD1, CHR 0x82, CHR 0xD0, CHR 0xB2, CHR 0xD0, CHR 0xB5, CHR 0xD0,
         CHR 0xBD, CHR 0xD0, CHR 0xBD, CHR 0xD0, CHR 0xB8, CHR 0xD0, CHR 0xBA, CHR 0xD0,
         CHR 0xBE, CHR 0xD0, CHR 0xB2],
        ''poll_oss''),
       ([CHR 0xD0, CHR 0x91, CHR 0xD0, CHR 0xB0, CHR 0xD0, CHR 0xBB, CHR 0xD0, CHR 0xBB,
         CHR 0xD1, CHR 0x8B, CHR 0x20, CHR 0xD0, CHR 0xB8, CHR 0x20, CHR 0xD0, CHR 0xBF,
         CHR 0xD0, CHR 0xBE, CHR 0xD0, CHR 0xBE, CHR 0xD1, CHR 0x89, CHR 0xD1, CHR 0x80,
         CHR 0xD0, CHR 0xB5, CHR 0xD0, CHR 0xBD, CHR 0xD0, CHR 0xB8, CHR 0xD1, CHR 0x8F],
        ''rewards''),
       ([CHR 0xD0, CHR 0x9C, CHR 0xD0, CHR 0xBE, CHR 0xD0, CHR 0xB9, CHR 0x20, CHR 0xD0,
         CHR 0xB4, CHR 0xD0, CHR 0xBE, CHR 0xD0, CHR 0xBC],
        ''my_home''),
       ([CHR 0xD0, CHR 0xA3, CHR 0xD1, CHR 0x81, CHR 0xD0, CHR 0xBB, CHR 0xD1, CHR 0x83,
         CHR 0xD0, CHR 0xB3, CHR 0xD0, CHR 0xB8, CHR 0x20, CHR 0xD0, CHR 0xBF, CHR 0xD0,
         CHR 0xB0, CHR 0xD1, CHR 0x80, CHR 0xD1, CHR 0x82, CHR 0xD0, CHR 0xBD, CHR 0xD0,
         CHR 0xB5, CHR 0xD1, CHR 0x80, CHR 0xD0, CHR 0xBE, CHR 0xD0, CHR 0xB2],
        ''partners''),
       ([CHR 0xD0, CHR 0xA3, CHR 0xD0, CHR 0xBF, CHR 0xD1, CHR 0x80, CHR 0xD0, CHR 0xB0,
         CHR 0xD0, CHR 0xB2, CHR 0xD0, CHR 0xBB, CHR 0xD0, CHR 0xB5, CHR 0xD0, CHR 0xBD,
         CHR 0xD0, CHR 0xB8, CHR 0xD0, CHR 0xB5, CHR 0x20, CHR 0xD1, CHR 0x82, CHR 0xD1,
         CHR 0x80, CHR 0xD0, CHR 0xB0, CHR 0xD0, CHR 0xBD, CHR 0xD1, CHR 0x81, CHR 0xD0,
         CHR 0xBF, CHR 0xD0, CHR 0xBE, CHR 0xD1, CHR 0x80, CHR 0xD1, CHR 0x82, CHR 0xD0,
         CHR 0xBE, CHR 0xD0, CHR 0xBC],
        ''transport''),
       ([CHR 0xD0, CHR 0x9F, CHR 0xD1, CHR 0x80, CHR 0xD0, CHR 0xBE, CHR 0xD1, CHR 0x81,
         CHR 0xD0, CHR 0xBC, CHR 0xD0, CHR 0xBE, CHR 0xD1, CHR 0x82, CHR 0xD1, CHR 0x80,
         CHR 0x20, CHR 0xD0, CHR 0xBE, CHR 0xD0, CHR 0xB1, CHR 0xD1, CHR 0x8A, CHR 0xD1,
         CHR 0x8F, CHR 0xD0, CHR 0xB2, CHR 0xD0, CHR 0xBB, CHR 0xD0, CHR 0xB5, CHR 0xD0,
         CHR 0xBD, CHR 0xD0, CHR 0xB8, CHR 0xD0, CHR 0xB9],
        ''ann_view''),
       ([CHR 0xD0, CHR 0xA3, CHR 0xD0, CHR 0xBC, CHR 0xD0, CHR 0xBD, CHR 0xD1, CHR 0x8B,
         CHR 0xD0, CHR 0xB5, CHR 0x20, CHR 0xD1, CHR 0x80, CHR 0xD0, CHR 0xB5, CHR 0xD1,
         CHR 0x88, CHR 0xD0, CHR 0xB5, CHR 0xD0, CHR 0xBD, CHR 0xD0, CHR 0xB8, CHR 0xD1,
         CHR 0x8F],
        ''smart''),
       ([CHR 0xD0, CHR 0xA2, CHR 0xD0, CHR 0xB5, CHR 0xD1, CHR 0x85, CHR 0xD0, CHR 0xBF,
         CHR 0xD0, CHR 0xBE, CHR 0xD0, CHR 0xB4, CHR 0xD0, CHR 0xB4, CHR 0xD0, CHR 0xB5,
         CHR 0xD1, CHR 0x80, CHR 0xD0, CHR 0xB6, CHR 0xD0, CHR 0xBA, CHR 0xD0, CHR 0xB0],
        ''support''),
       ([CHR 0xD0, CHR 0x93, CHR 0xD0, CHR 0xBE, CHR 0xD1, CHR 0x81, CHR 0xD1, CHR 0x82,
         CHR 0xD0, CHR 0xB5, CHR 0xD0, CHR 0xB2, CHR 0xD0, CHR 0xBE, CHR 0xD0, CHR 0xB9,
         CHR 0x20, CHR 0xD0, CHR 0xB4, CHR 0xD0, CHR 0xBE, CHR 0xD1, CHR 0x81, CHR 0xD1,
         CHR 0x82, CHR 0xD1, CHR 0x83, CHR 0xD0, CHR 0xBF],
        ''guest''),
       ([CHR 0xD0, CHR 0x93, CHR 0xD0, CHR 0xBE, CHR 0xD1, CHR 0x80, CHR 0xD0, CHR 0xBE,
         CHR 0xD0, CHR 0xB4, CHR 0xD1, CHR 0x81, CHR 0xD0, CHR 0xBA, CHR 0xD0, CHR 0xB8,
         CHR 0xD0, CHR 0xB5, CHR 0x20, CHR 0xD1, CHR 0x81, CHR 0xD0, CHR 0xB5, CHR 0xD1,
         CHR 0x80, CHR 0xD0, CHR 0xB2, CHR 0xD0, CHR 0xB8, CHR 0xD1, CHR 0x81, CHR 0xD1,
         CHR 0x8B],
        ''city_serv''),
       ([CHR 0xD0, CHR 0xA1, CHR 0xD0, CHR 0xBE, CHR 0xD0, CHR 0xB7, CHR 0xD0, CHR 0xB4,
         CHR 0xD0, CHR 0xB0, CHR 0xD0, CHR 0xBD, CHR 0xD0, CHR 0xB8, CHR 0xD0, CHR 0xB5,
         CHR 0x20, CHR 0xD0, CHR 0xB0, CHR 0xD0, CHR 0xB4, CHR 0xD1, CHR 0x80, CHR 0xD0,
         CHR 0xB5, CHR 0xD1, CHR 0x81, CHR 0xD0, CHR 0xB0],
        ''address''),
       ([CHR 0xD0, CHR 0xA1, CHR 0xD0, CHR 0xBE, CHR 0xD0, CHR 0xB7, CHR 0xD0, CHR 0xB4,
         CHR 0xD0, CHR 0xB0, CHR 0xD0, CHR 0xBD, CHR 0xD0, CHR 0xB8, CHR 0xD0, CHR 0xB5,
         CHR 0x20, CHR 0xD0, CHR 0xBE, CHR 0xD0, CHR 0xB1, CHR 0xD1, CHR 0x8A, CHR 0xD1,
         CHR 0x8F, CHR 0xD0, CHR 0xB2, CHR 0xD0, CHR 0xBB, CHR 0xD0, CHR 0xB5, CHR 0xD0,
         CHR 0xBD, CHR 0xD0, CHR 0xB8, CHR 0xD1, CHR 0x8F],
        ''ann_create'')]"

text \<open>\<^verbatim>\<open>result[key] = value\<close> on a dictionary kept as the list of its items in
  insertion order.\<close>

fun dict_set :: "'k \<Rightarrow> 'v \<Rightarrow> ('k \<times> 'v) list \<Rightarrow> ('k \<times> 'v) list" where
  "dict_set k v [] = [(k, v)]"
| "dict_set k v (item # d) =
     (if fst item = k then (k, v) # d else item # dict_set k v d)"

text \<open>The decimal digits of a number, for \<^verbatim>\<open>f'block_{len(result)}'\<close>.\<close>

function str_nat :: "nat \<Rightarrow> string" where
  "str_nat n =
     (if n < 10 then [char_of (48 + n)]
      else str_nat (n div 10) @ [char_of (48 + n mod 10)])"
  by pat_completeness auto
termination
  by (relation "measure (\<lambda>n. n)") auto

definition generate_prefixes :: "block list \<Rightarrow> (string \<times> string) list" where
  "generate_prefixes blocks_data =
     fold (\<lambda>b result.
             dict_set (block_name b)
               (case map_of prefixes_map (block_name b) of
                  Some pfx \<Rightarrow> pfx
                | None \<Rightarrow> ''block_'' @ str_nat (length result))
               result)
          blocks_data []"

subsection \<open>Block Feature Aggregator: \<^verbatim>\<open>transform\<close>\<close>

datatype metric =
    Count | Max_step | Success_count | Review_count
  | Dur_sec | Click_count_sum | Dbl_dur_sec | Dbl_count_sum

definition metric_name :: "metric \<Rightarrow> string" where
  "metric_name m =
     (case m of
        Count \<Rightarrow> ''count'' | Max_step \<Rightarrow> ''max_step''
      | Success_count \<Rightarrow> ''success_count'' | Review_count \<Rightarrow> ''review_count''
      | Dur_sec \<Rightarrow> ''dur_sec'' | Click_count_sum \<Rightarrow> ''click_count''
      | Dbl_dur_sec \<Rightarrow> ''dbl_dur_sec'' | Dbl_count_sum \<Rightarrow> ''dbl_count'')"

text \<open>The metrics in the order of the pivot loop.\<close>

definition metrics :: "metric list" where
  "metrics =
     [Count, Max_step, Success_count, Review_count, Dur_sec, Click_count_sum, Dbl_dur_sec,
      Dbl_count_sum]"

text \<open>\<^verbatim>\<open>f'{prefix}_{metric}'\<close>.\<close>

definition feature_column :: "string \<Rightarrow> metric \<Rightarrow> string" where
  "feature_column pfx m = pfx @ ''_'' @ metric_name m"

definition action_key_of :: "row \<Rightarrow> action_key" where
  "action_key_of r = (screen r, functional r, action r)"

text \<open>The columns \<^verbatim>\<open>_block_name\<close> and \<^verbatim>\<open>_step\<close>
  (\<^verbatim>\<open>action_to_block.get(key, (None, 0))\<close>), \<^verbatim>\<open>_is_success\<close> and \<^verbatim>\<open>_is_review\<close>.\<close>

definition block_of :: "lookups \<Rightarrow> row \<Rightarrow> string option" where
  "block_of L r = map_option fst (action_to_block L (action_key_of r))"

definition step_of :: "lookups \<Rightarrow> row \<Rightarrow> int" where
  "step_of L r = (case action_to_block L (action_key_of r) of None \<Rightarrow> 0 | Some bs \<Rightarrow> snd bs)"

definition is_success :: "lookups \<Rightarrow> row \<Rightarrow> bool" where
  "is_success L r = (success_lookup L (action_key_of r) \<noteq> None)"

definition is_review :: "lookups \<Rightarrow> row \<Rightarrow> bool" where
  "is_review L r = (review_lookup L (action_key_of r) \<noteq> None)"

text \<open>The rows of one group of
  \<^verbatim>\<open>df_with_blocks.groupby(['global_session_id', '_block_name'])\<close>.\<close>

definition block_rows :: "lookups \<Rightarrow> row list \<Rightarrow> int \<Rightarrow> string \<Rightarrow> row list" where
  "block_rows L rs s b = filter (\<lambda>r. global_session_id r = s \<and> block_of L r = Some b) rs"

text \<open>The aggregations of a group that is not empty: count, max, and six sums.\<close>

definition aggregate :: "lookups \<Rightarrow> metric \<Rightarrow> row list \<Rightarrow> int" where
  "aggregate L m g =
     (case m of
        Count \<Rightarrow> int (length g)
      | Max_step \<Rightarrow> fold max (map (step_of L) (tl g)) (step_of L (hd g))
      | Success_count \<Rightarrow> int (length (filter (is_success L) g))
      | Review_count \<Rightarrow> int (length (filter (is_review L) g))
      | Dur_sec \<Rightarrow> sum_list (map duration_seconds g)
      | Click_count_sum \<Rightarrow> sum_list (map click_count g)
      | Dbl_dur_sec \<Rightarrow> sum_list (map dbl_duration_seconds g)
      | Dbl_count_sum \<Rightarrow> sum_list (map dbl_count g))"

text \<open>A cell of the pivot of one metric: NaN where the session has no row of the block.\<close>

definition pivot_cell :: "lookups \<Rightarrow> row list \<Rightarrow> metric \<Rightarrow> int \<Rightarrow> string \<Rightarrow> int option" where
  "pivot_cell L rs m s b =
     (case block_rows L rs s b of [] \<Rightarrow> None | r # g \<Rightarrow> Some (aggregate L m (r # g)))"

text \<open>\<^verbatim>\<open>self.block_prefixes.get(col, col)\<close>.\<close>

definition prefix_of :: "(string \<times> string) list \<Rightarrow> string \<Rightarrow> string" where
  "prefix_of block_prefixes b = (case map_of block_prefixes b of None \<Rightarrow> b | Some p \<Rightarrow> p)"

definition fillna :: "int \<Rightarrow> int option \<Rightarrow> int" where
  "fillna d v = (case v of None \<Rightarrow> d | Some x \<Rightarrow> x)"

text \<open>The first fill: \<open>-1\<close> where \<^verbatim>\<open>col.endswith('_max_step')\<close>, 0 elsewhere.\<close>

definition fill_value :: "string \<Rightarrow> int" where
  "fill_value col = (if suffix ''_max_step'' col then - 1 else 0)"

text \<open>The index and the blocks of the pivots: the sessions and the blocks that occur in
  \<^verbatim>\<open>df_with_blocks\<close>, each sorted.\<close>

definition features_index :: "lookups \<Rightarrow> row list \<Rightarrow> int list" where
  "features_index L rs =
     sort (remdups (map global_session_id (filter (\<lambda>r. block_of L r \<noteq> None) rs)))"

definition features_blocks :: "lookups \<Rightarrow> row list \<Rightarrow> string list" where
  "features_blocks L rs = sort (remdups (List.map_filter (block_of L) rs))"

text \<open>A pivot is an integer table when every session of the index has rows in every
  block of the columns, and a floating-point table as soon as one cell is NaN.\<close>

definition pivot_is_float :: "lookups \<Rightarrow> row list \<Rightarrow> bool" where
  "pivot_is_float L rs =
     list_ex (\<lambda>s. list_ex (\<lambda>b. block_rows L rs s b = []) (features_blocks L rs))
       (features_index L rs)"

text \<open>\<^verbatim>\<open>features_df\<close> after \<^verbatim>\<open>pd.concat(result_dfs, axis=1)\<close> and the first fill,
  \<^verbatim>\<open>fillna(-1).astype('int32')\<close> or \<^verbatim>\<open>fillna(0).astype('int32')\<close>: its column names,
  metric by metric, and the row of a session of its index.\<close>

definition features_columns :: "(string \<times> string) list \<Rightarrow> lookups \<Rightarrow> row list \<Rightarrow> string list" where
  "features_columns P L rs =
     concat (map (\<lambda>m. map (\<lambda>b. feature_column (prefix_of P b) m) (features_blocks L rs))
                 metrics)"

definition features_row ::
  "(string \<times> string) list \<Rightarrow> lookups \<Rightarrow> row list \<Rightarrow> int \<Rightarrow> (string \<times> int) list" where
  "features_row P L rs s =
     concat (map (\<lambda>m. map (\<lambda>b. (feature_column (prefix_of P b) m,
                                     astype_int32 (pivot_is_float L rs)
                                       (fillna (fill_value (feature_column (prefix_of P b) m))
                                          (pivot_cell L rs m s b))))
                            (features_blocks L rs))
                 metrics)"

text \<open>\<^verbatim>\<open>session_agg\<close>: for every session of the table, in ascending order, the first
  value that is not missing of each context column and the summed duration, an integer
  sum, after \<^verbatim>\<open>fillna(0).astype('int32')\<close>. The rows of the session are taken from the
  table sorted by session and time.\<close>

record session_agg_row =
  agg_session_id :: int
  first_event_time :: "int option"
  first_device_id :: int
  first_session_no :: int
  sess_dur_sec :: int

definition session_agg :: "row list \<Rightarrow> session_agg_row list" where
  "session_agg rs =
     map (\<lambda>s. let g = session_rows s (sort_rows rs)
              in \<lparr>agg_session_id = s,
                  first_event_time = (case List.map_filter event_time g of [] \<Rightarrow> None
                                      | t # ts \<Rightarrow> Some t),
                  first_device_id = device_id (hd g),
                  first_session_no = session_no (hd g),
                  sess_dur_sec = astype_int32 False (sum_list (map duration_seconds g))\<rparr>)
         (sort (remdups (map global_session_id rs)))"

text \<open>\<^verbatim>\<open>session_agg.join(features_df, on='global_session_id', how='left')\<close>: the feature
  cells of a session, NaN in every feature column for a session that \<^verbatim>\<open>features_df\<close>
  does not have.\<close>

definition joined_cells ::
  "(string \<times> string) list \<Rightarrow> lookups \<Rightarrow> row list \<Rightarrow> int \<Rightarrow> (string \<times> int option) list" where
  "joined_cells P L rs s =
     (if s \<in> set (features_index L rs)
      then map (\<lambda>cv. (fst cv, Some (snd cv))) (features_row P L rs s)
      else map (\<lambda>c. (c, None)) (features_columns P L rs))"

text \<open>One step of the last fill: a column that the table does not have is created with
  the default, one that it has gets the default where it is NaN. The cast that follows
  meets values of the 32-bit range only and changes none.\<close>

definition fill_column :: "string \<times> int \<Rightarrow> (string \<times> int option) list \<Rightarrow> (string \<times> int option) list" where
  "fill_column cd cells =
     (if fst cd \<notin> set (map fst cells) then cells @ [(fst cd, Some (snd cd))]
      else map (\<lambda>cv. if fst cv = fst cd then (fst cv, Some (fillna (snd cd) (snd cv))) else cv)
             cells)"

text \<open>The columns the last fill visits, with their defaults: for every prefix of
  \<^verbatim>\<open>block_prefixes.values()\<close> the seven metrics filled with 0, then \<^verbatim>\<open>max_step\<close>
  filled with \<open>-1\<close>.\<close>

definition fill_plan :: "(string \<times> string) list \<Rightarrow> (string \<times> int) list" where
  "fill_plan P =
     concat (map (\<lambda>pfx.
                    map (\<lambda>m. (feature_column pfx m, 0))
                      [Count, Success_count, Review_count, Dur_sec, Click_count_sum,
                       Dbl_dur_sec, Dbl_count_sum]
                    @ [(feature_column pfx Max_step, - 1)])
                 (map snd P))"

record feature_table =
  context_columns :: "column list"
  feature_rows :: "(session_agg_row \<times> (string \<times> int option) list) list"

definition transform :: "block list \<Rightarrow> row frame \<Rightarrow> error + feature_table" where
  "transform blocks_data df =
     (if Global_session_id \<notin> set (columns df) then Inl KeyError
      else if \<not> set [Screen, Functional, Action, Event_time, Duration_seconds, Click_count,
                      Dbl_duration_seconds, Dbl_count] \<subseteq> set (columns df)
        then Inl ValueError
      else if rows df = [] then Inl ZeroDivisionError
      else
        let P = generate_prefixes blocks_data;
            L = build_action_lookup blocks_data
        in Inr \<lparr>context_columns =
                    filter (\<lambda>c. c \<in> set (columns df))
                      [Event_time, Device_id, Session_no, Global_session_id],
                  feature_rows =
                    map (\<lambda>a. (a, fold fill_column (fill_plan P)
                                   (joined_cells P L (rows df) (agg_session_id a))))
                      (session_agg (rows df))\<rparr>)"

definition transform_input :: "row frame \<Rightarrow> bool" where
  "transform_input df =
     (rows df \<noteq> [] \<and>
      set [Global_session_id, Screen, Functional, Action, Event_time, Duration_seconds,
           Click_count, Dbl_duration_seconds, Dbl_count] \<subseteq> set (columns df))"

text \<open>A taxonomy whose blocks are blocks of the prefix table, each at most once.\<close>

definition known_blocks :: "block list \<Rightarrow> bool" where
  "known_blocks blocks_data =
     (distinct (map block_name blocks_data) \<and>
      set (map block_name blocks_data) \<subseteq> set (map fst prefixes_map))"

text \<open>The value the specification gives a block that a session never touched.\<close>

definition untouched_value :: "metric \<Rightarrow> int" where
  "untouched_value m = (if m = Max_step then - 1 else 0)"

definition cell_value :: "(string \<times> int option) list \<Rightarrow> string \<Rightarrow> int option option" where
  "cell_value cells col = map_of cells col"


text \<open>A taxonomy with the seventeen blocks of the prefix table: the profile block has a
  tap (step 1), a save as success action (step 3) and a view listed as success-review;
  the navigation block has a swipe; the other blocks have no group.\<close>

definition example_blocks :: "block list" where
  "example_blocks =
     map (\<lambda>item.
            \<lparr>block_name = fst item,
             block_groups =
               (if snd item = ''profile''
                then [\<lparr>group_screen = ''Home'', group_functional = ''Open'',
                       regular_actions = [\<lparr>obj_action = ''Tap'', obj_step = Some 1\<rparr>],
                       cancel_actions = [], exit_actions = [],
                       success_review = [\<lparr>obj_action = ''View'', obj_step = Some 2\<rparr>],
                       success_actions = [\<lparr>obj_action = ''Save'', obj_step = Some 3\<rparr>]\<rparr>]
                else if snd item = ''nav''
                then [\<lparr>group_screen = ''Menu'', group_functional = ''Open'',
                       regular_actions = [\<lparr>obj_action = ''Swipe'', obj_step = None\<rparr>],
                       cancel_actions = [], exit_actions = [], success_review = [],
                       success_actions = []\<rparr>]
                else [])\<rparr>)
         prefixes_map"

text \<open>Session 1 taps and saves in the profile block, session 2 has two events of no
  block, session 3 swipes in the navigation block.\<close>

definition example_sessions :: "row frame" where
  "example_sessions =
     \<lparr>columns = [Event_time, Device_id, Session_no, Screen, Functional, Action,
                 Global_session_id, Duration_seconds, Click_count, Dbl_duration_seconds,
                 Dbl_count],
      rows = [(example_row 1 1759140000000000000 ''Home'' ''Tap'' 4)\<lparr>click_count := 2\<rparr>,
              (example_row 1 1759140004000000000 ''Home'' ''Save'' 0)\<lparr>click_count := 1\<rparr>,
              (example_row 2 1759140000000000000 ''Home'' ''View'' 6)\<lparr>click_count := 1\<rparr>,
              (example_row 2 1759140006000000000 ''Other'' ''Tap'' 0)\<lparr>click_count := 1\<rparr>,
              (example_row 3 1759140000000000000 ''Menu'' ''Swipe'' 0)\<lparr>click_count := 1\<rparr>]\<rparr>"

text \<open>Session ids, session duration and the number of feature cells of every row of a
  result, and the value of one feature column in every row.\<close>

definition table_summary :: "error + feature_table \<Rightarrow> (int \<times> int \<times> nat) list" where
  "table_summary res =
     (case res of
        Inl e \<Rightarrow> []
      | Inr t \<Rightarrow> map (\<lambda>ac. (agg_session_id (fst ac), sess_dur_sec (fst ac), length (snd ac)))
                 (feature_rows t))"

definition column_values :: "error + feature_table \<Rightarrow> string \<Rightarrow> int option option list" where
  "column_values res col =
     (case res of
        Inl e \<Rightarrow> []
      | Inr t \<Rightarrow> map (\<lambda>ac. cell_value (snd ac) col) (feature_rows t))"


text \<open>Reading the metric off a feature column name, longest metric names first.\<close>

definition metric_of_column :: "string \<Rightarrow> metric" where
  "metric_of_column col =
     (if suffix ''_success_count'' col then Success_count
      else if suffix ''_review_count'' col then Review_count
      else if suffix ''_click_count'' col then Click_count_sum
      else if suffix ''_dbl_dur_sec'' col then Dbl_dur_sec
      else if suffix ''_dbl_count'' col then Dbl_count_sum
      else if suffix ''_max_step'' col then Max_step
      else if suffix ''_dur_sec'' col then Dur_sec
      else Count)"


section \<open>Verification\<close>

subsection \<open>Session Identity Resolver\<close>

lemma set_drop_duplicates: "set (drop_duplicates seen xs) = set xs - set seen"
  by (induction xs arbitrary: seen) auto

lemma distinct_drop_duplicates: "distinct (drop_duplicates seen xs)"
  by (induction xs arbitrary: seen) (auto simp: set_drop_duplicates)

lemma session_pairs_set: "set (session_pairs es) = session_pair ` set es"
  by (simp add: session_pairs_def set_drop_duplicates)

lemma session_pairs_strict: "sorted_wrt (<) (session_pairs es)"
  by (simp add: session_pairs_def strict_sorted_iff distinct_drop_duplicates)

lemma session_pairs_length: "length (session_pairs es) = card (session_pair ` set es)"
proof -
  have "distinct (session_pairs es)"
    using session_pairs_strict strict_sorted_iff by blast
  then show ?thesis
    by (metis distinct_card session_pairs_set)
qed

lemma range_from_one_length: "length (map int [1 ..< n + 1]) = n"
  by simp

lemma range_from_one_nth: "i < n \<Longrightarrow> map int [1 ..< n + 1] ! i = int i + 1"
  by (simp del: upt_Suc)

lemma concat_map_singleton:
  "(\<And>x. x \<in> set xs \<Longrightarrow> f x = [g x]) \<Longrightarrow> concat (map f xs) = map g xs"
  by (induction xs) auto

lemma unique_sessions_nth:
  assumes "i < length (session_pairs es)"
  shows "map_of (unique_sessions es) (session_pairs es ! i) = Some (int i + 1)"
proof -
  let ?ps = "session_pairs es"
  have d: "distinct ?ps"
    using session_pairs_strict strict_sorted_iff by blast
  have "map_of (zip ?ps (map int [1 ..< length ?ps + 1])) (?ps ! i)
          = Some (map int [1 ..< length ?ps + 1] ! i)"
    using d assms by (intro map_of_zip_nth) (simp_all del: upt_Suc)
  also have "map int [1 ..< length ?ps + 1] ! i = int i + 1"
    using assms by (rule range_from_one_nth)
  finally show ?thesis by (simp add: unique_sessions_def Let_def del: upt_Suc)
qed

lemma filter_fst_map_of:
  "distinct (map fst us) \<Longrightarrow>
   filter (\<lambda>u. fst u = k) us = (case map_of us k of None \<Rightarrow> [] | Some v \<Rightarrow> [(k, v)])"
proof (induction us)
  case Nil
  then show ?case by simp
next
  case (Cons u us)
  obtain a b where u: "u = (a, b)" by (cases u)
  show ?case
  proof (cases "a = k")
    case True
    with Cons.prems u have "k \<notin> fst ` set us" by auto
    then have "filter (\<lambda>u. fst u = k) us = []"
      by (auto simp: filter_empty_conv)
    with True u show ?thesis by simp
  next
    case False
    with Cons u show ?thesis by simp
  qed
qed

lemma unique_sessions_fst: "map fst (unique_sessions es) = session_pairs es"
  by (simp add: unique_sessions_def Let_def del: upt_Suc)

text \<open>The id assigned to a pair: its 1-based position in the sorted list of pairs.\<close>

lemma merge_left_unique_sessions:
  "merge_left es (unique_sessions es) =
     map (\<lambda>e. with_session_id e (map_of (unique_sessions es) (session_pair e))) es"
proof -
  have d: "distinct (map fst (unique_sessions es))"
    using session_pairs_strict [of es] by (simp add: unique_sessions_fst strict_sorted_iff)
  have "\<And>e. e \<in> set es \<Longrightarrow>
     (case filter (\<lambda>u. fst u = session_pair e) (unique_sessions es) of
        [] \<Rightarrow> [with_session_id e None]
      | ms \<Rightarrow> map (\<lambda>u. with_session_id e (Some (snd u))) ms)
     = [with_session_id e (map_of (unique_sessions es) (session_pair e))]"
  proof -
    fix e assume "e \<in> set es"
    show "?thesis e"
      by (simp add: filter_fst_map_of [OF d] split: option.split)
  qed
  then show ?thesis
    unfolding merge_left_def by (rule concat_map_singleton)
qed

lemma with_session_id_simps [simp]:
  "joined_session_id (with_session_id e g) = g"
  "session_pair (with_session_id e g) = session_pair e"
  "event_of (with_session_id e g) = e"
  by (simp_all add: with_session_id_def session_pair_def event_of_def)

lemma assigned_id:
  assumes "e \<in> set es"
  obtains i where "i < length (session_pairs es)" "session_pairs es ! i = session_pair e"
    "map_of (unique_sessions es) (session_pair e) = Some (int i + 1)"
proof -
  have "session_pair e \<in> set (session_pairs es)"
    using assms by (simp add: session_pairs_set)
  then obtain i where i: "i < length (session_pairs es)" "session_pairs es ! i = session_pair e"
    by (auto simp: in_set_conv_nth)
  then have "map_of (unique_sessions es) (session_pair e) = Some (int i + 1)"
    using unique_sessions_nth [of i es] by simp
  with i show ?thesis using that by blast
qed

lemma strict_sorted_nth_less_iff:
  fixes ps :: "('a :: linorder) list"
  assumes "sorted_wrt (<) ps" "i < length ps" "j < length ps"
  shows "(ps ! i < ps ! j) = (i < j)"
proof
  assume l: "ps ! i < ps ! j"
  show "i < j"
  proof (rule ccontr)
    assume "\<not> i < j"
    then have "j = i \<or> j < i" by auto
    then show False
    proof
      assume "j = i" with l show False by simp
    next
      assume "j < i"
      then have "ps ! j < ps ! i"
        using assms sorted_wrt_nth_less by blast
      with l show False by simp
    qed
  qed
next
  assume "i < j"
  then show "ps ! i < ps ! j"
    using assms sorted_wrt_nth_less by blast
qed

lemma strict_sorted_nth_eq_iff:
  fixes ps :: "('a :: linorder) list"
  assumes "sorted_wrt (<) ps" "i < length ps" "j < length ps"
  shows "(ps ! i = ps ! j) = (i = j)"
  using assms by (metis nth_eq_iff_index_eq strict_sorted_iff)

text \<open>
  Claim C1. When the resolver runs on a table it accepts, the result has as many rows as
  the input and holds the same events; every row carries a global session id; two rows
  have the same id exactly when they have the same (device id, session number) pair; the
  ids grow with the pairs in their lexicographic order, and the ids in use are exactly
  \<open>1..N\<close>, \<open>N\<close> the number of distinct pairs.
\<close>

theorem add_global_session_id_bijection:
  assumes "resolver_input df"
  shows "\<exists>out. add_global_session_id (Some df) = Inr out
     \<and> length (rows out) = length (rows df)
     \<and> mset (map event_of (rows out)) = mset (rows df)
     \<and> (\<forall>r \<in> set (rows out). joined_session_id r \<noteq> None)
     \<and> (\<forall>r \<in> set (rows out). \<forall>r' \<in> set (rows out).
          (joined_session_id r = joined_session_id r') = (session_pair r = session_pair r'))
     \<and> (\<forall>r \<in> set (rows out). \<forall>r' \<in> set (rows out).
          (the (joined_session_id r) < the (joined_session_id r')) = (session_pair r < session_pair r'))
     \<and> (\<lambda>r. the (joined_session_id r)) ` set (rows out)
          = {1 .. int (card (session_pair ` set (rows df)))}"
proof -
  let ?es = "rows df"
  let ?ps = "session_pairs ?es"
  let ?g = "\<lambda>e. map_of (unique_sessions ?es) (session_pair e)"
  let ?out = "\<lparr>columns = columns df @ [Global_session_id],
              rows = sort_key joined_sort_key (map (\<lambda>e. with_session_id e (?g e)) ?es)\<rparr>"
  have run: "add_global_session_id (Some df) = Inr ?out"
    using assms by (simp add: add_global_session_id_def resolver_input_def merge_left_unique_sessions)
  have rows_set: "set (rows ?out) = (\<lambda>e. with_session_id e (?g e)) ` set ?es"
    by simp
  have len: "length (rows ?out) = length ?es" by simp
  have ms: "mset (map event_of (rows ?out)) = mset ?es"
  proof -
    have "mset (rows ?out) = mset (map (\<lambda>e. with_session_id e (?g e)) ?es)"
      by simp
    then have "mset (map event_of (rows ?out))
                 = mset (map event_of (map (\<lambda>e. with_session_id e (?g e)) ?es))"
      by (simp only: mset_map)
    also have "map event_of (map (\<lambda>e. with_session_id e (?g e)) ?es) = ?es"
      by (simp add: map_idI)
    finally show ?thesis .
  qed
  have some: "\<forall>r \<in> set (rows ?out). joined_session_id r \<noteq> None"
  proof
    fix r assume "r \<in> set (rows ?out)"
    then obtain e where e: "e \<in> set ?es" "r = with_session_id e (?g e)"
      unfolding rows_set by blast
    from e(1) obtain i where "?g e = Some (int i + 1)" by (rule assigned_id)
    with e(2) show "joined_session_id r \<noteq> None" by simp
  qed
  have pairwise: "\<forall>r \<in> set (rows ?out). \<forall>r' \<in> set (rows ?out).
          (joined_session_id r = joined_session_id r') = (session_pair r = session_pair r')
        \<and> (the (joined_session_id r) < the (joined_session_id r')) = (session_pair r < session_pair r')"
  proof (intro ballI)
    fix r r' assume "r \<in> set (rows ?out)" "r' \<in> set (rows ?out)"
    then obtain e e' where e: "e \<in> set ?es" "r = with_session_id e (?g e)"
      and e': "e' \<in> set ?es" "r' = with_session_id e' (?g e')"
      unfolding rows_set by blast
    from e(1) obtain i where i: "i < length ?ps" "?ps ! i = session_pair e" "?g e = Some (int i + 1)"
      by (rule assigned_id)
    from e'(1) obtain j where j: "j < length ?ps" "?ps ! j = session_pair e'" "?g e' = Some (int j + 1)"
      by (rule assigned_id)
    have "(session_pair e = session_pair e') = (i = j)"
      using strict_sorted_nth_eq_iff [OF session_pairs_strict i(1) j(1)] i(2) j(2) by simp
    moreover have "(session_pair e < session_pair e') = (i < j)"
      using strict_sorted_nth_less_iff [OF session_pairs_strict i(1) j(1)] i(2) j(2) by simp
    ultimately show "(joined_session_id r = joined_session_id r') = (session_pair r = session_pair r')
        \<and> (the (joined_session_id r) < the (joined_session_id r')) = (session_pair r < session_pair r')"
      using e(2) e'(2) i(3) j(3) by auto
  qed
  have range: "(\<lambda>r. the (joined_session_id r)) ` set (rows ?out)
          = {1 .. int (card (session_pair ` set ?es))}" (is "?L = ?R")
  proof (intro set_eqI iffI)
    fix g assume "g \<in> ?L"
    then obtain e where e: "e \<in> set ?es" "g = the (?g e)"
      unfolding rows_set by auto
    from e(1) obtain i where i: "i < length ?ps" "?g e = Some (int i + 1)"
      by (rule assigned_id)
    then show "g \<in> ?R" using e(2) by (simp add: session_pairs_length)
  next
    fix g assume "g \<in> ?R"
    then have g: "1 \<le> g" "g \<le> int (length ?ps)" by (simp_all add: session_pairs_length)
    define i where "i = nat (g - 1)"
    have i: "i < length ?ps" "int i + 1 = g" using g by (simp_all add: i_def)
    then have "?ps ! i \<in> session_pair ` set ?es"
      using session_pairs_set nth_mem by blast
    then obtain e where e: "e \<in> set ?es" "session_pair e = ?ps ! i" by auto
    have "?g e = Some g"
      using unique_sessions_nth [OF i(1)] e(2) i(2) by simp
    then have "the (joined_session_id (with_session_id e (?g e))) = g" by simp
    then show "g \<in> ?L" using e(1) unfolding rows_set by force
  qed
  show ?thesis
    using run len ms some pairwise range by blast
qed

theorem add_global_session_id_bijection_witness:
  "resolver_input example_events
   \<and> (\<exists>out. add_global_session_id (Some example_events) = Inr out
     \<and> length (rows out) = 4
     \<and> map (\<lambda>r. (session_pair r, joined_session_id r)) (rows out)
          = [((3, 1), Some 1), ((3, 1), Some 1), ((7, 1), Some 2), ((7, 2), Some 3)]
     \<and> (\<lambda>r. the (joined_session_id r)) ` set (rows out)
          = {1 .. int (card (session_pair ` set (rows example_events)))})"
proof -
  have h: "resolver_input example_events"
    by (simp add: resolver_input_def example_events_def)
  have run: "map (\<lambda>r. (session_pair r, joined_session_id r))
               (sort_key joined_sort_key
                 (merge_left (rows example_events) (unique_sessions (rows example_events))))
          = [((3, 1), Some 1), ((3, 1), Some 1), ((7, 1), Some 2), ((7, 2), Some 3)]"
    by code_simp
  from add_global_session_id_bijection [OF h] obtain out where
    out: "add_global_session_id (Some example_events) = Inr out"
      "length (rows out) = length (rows example_events)"
      "(\<lambda>r. the (joined_session_id r)) ` set (rows out)
          = {1 .. int (card (session_pair ` set (rows example_events)))}"
    by blast
  have "rows out = sort_key joined_sort_key
                 (merge_left (rows example_events) (unique_sessions (rows example_events)))"
    using out(1) h by (auto simp: add_global_session_id_def resolver_input_def)
  with run out h show ?thesis
    by (auto simp: example_events_def)
qed

text \<open>
  Claim C9 as stated fails: on a non-empty table without the device-id column the
  resolver stops in the column selection \<^verbatim>\<open>merged_df[[...]]\<close>, which raises
  \<^verbatim>\<open>KeyError\<close>; the only \<^verbatim>\<open>ValueError\<close> of the method is the one for a table that
  is not loaded or empty.
\<close>

theorem add_global_session_id_missing_column_counterexample:
  "add_global_session_id (Some example_events_no_device) = Inl KeyError
   \<and> add_global_session_id (Some example_events_no_device) \<noteq> Inl ValueError"
  by (simp add: add_global_session_id_def example_events_no_device_def)

text \<open>
  Claim C9, amended. Whenever the device-id column or the session-number column is absent
  the resolver fails: with \<^verbatim>\<open>ValueError\<close> when the table is not loaded or has no rows,
  and with \<^verbatim>\<open>KeyError\<close> otherwise.
\<close>

theorem add_global_session_id_missing_column:
  assumes "Device_id \<notin> set (columns df) \<or> Session_no \<notin> set (columns df)"
  shows "add_global_session_id (Some df) = Inl (if rows df = [] then ValueError else KeyError)"
  using assms by (auto simp: add_global_session_id_def)

theorem add_global_session_id_missing_column_witness:
  "Device_id \<notin> set (columns example_events_no_device)
   \<and> rows example_events_no_device \<noteq> []
   \<and> add_global_session_id (Some example_events_no_device) = Inl KeyError"
proof -
  have d: "Device_id \<notin> set (columns example_events_no_device)"
    by (simp add: example_events_no_device_def)
  have r: "rows example_events_no_device \<noteq> []"
    by (simp add: example_events_no_device_def)
  from d have "add_global_session_id (Some example_events_no_device)
      = Inl (if rows example_events_no_device = [] then ValueError else KeyError)"
    by (intro add_global_session_id_missing_column) simp
  with d r show ?thesis by simp
qed

subsection \<open>Temporal Normalizer\<close>

declare float64.simps [simp del]

lemma round_half_even_one [simp]: "round_half_even p 1 = p"
  by (simp add: round_half_even_def)

lemma round_half_even_ge_div: "0 < q \<Longrightarrow> p div q \<le> round_half_even p q"
  by (simp add: round_half_even_def Let_def)

lemma round_half_even_ge:
  assumes "0 < q" "k * q \<le> p"
  shows "k \<le> round_half_even p q"
proof -
  have "(k * q) div q \<le> p div q"
    using assms by (intro zdiv_mono1) simp_all
  then have "k \<le> p div q" using assms(1) by simp
  with round_half_even_ge_div [OF assms(1), of p] show ?thesis by simp
qed

lemma round_half_even_less:
  assumes "0 < q" "2 * p < (2 * M - 1) * q"
  shows "round_half_even p q < M"
proof -
  let ?f = "p div q" and ?r = "p mod q"
  have p: "p = ?f * q + ?r" by simp
  have r: "0 \<le> ?r" "?r < q" using assms(1) by simp_all
  have "2 * (?f * q) \<le> 2 * p" using p r(1) by linarith
  then have "(2 * ?f) * q < (2 * M - 1) * q" using assms(2) by (simp add: algebra_simps)
  then have "2 * ?f < 2 * M - 1" using assms(1) by (simp add: mult_less_cancel_right)
  then have f: "?f \<le> M - 1" by simp
  show ?thesis
  proof (cases "?f = M - 1")
    case False
    with f have "?f + 1 < M" by simp
    then show ?thesis by (simp add: round_half_even_def Let_def)
  next
    case True
    have "2 * ((M - 1) * q + ?r) < (2 * M - 1) * q"
      using assms(2) p True by metis
    then have "2 * ?r < q" by (simp add: algebra_simps)
    then show ?thesis using True by (simp add: round_half_even_def Let_def)
  qed
qed

lemma float_trunc_neg: "float_trunc (m, - int J) = m div 2 ^ J"
proof (cases "J = 0")
  case True
  then show ?thesis by (simp add: float_trunc_def)
next
  case False
  then have "\<not> 0 \<le> - int J" by simp
  moreover have "nat (- (- int J)) = J" by simp
  ultimately show ?thesis by (simp only: float_trunc_def prod.case if_False)
qed

text \<open>Below \<open>2 ^ 53\<close> the nearest double is found by doubling.\<close>

lemma float64_small:
  assumes "0 < p" "0 < q" "p < 9007199254740992 * q"
  shows "\<exists>j. float64 p q = (round_half_even (2 ^ j * p) q, - int j)
           \<and> 4503599627370496 * q \<le> 2 ^ j * p \<and> 2 ^ j * p < 9007199254740992 * q"
  using assms
proof (induction p q rule: float64.induct)
  case (1 p q)
  show ?case
  proof (cases "p < 4503599627370496 * q")
    case True
    have "\<exists>j. float64 (2 * p) q = (round_half_even (2 ^ j * (2 * p)) q, - int j)
           \<and> 4503599627370496 * q \<le> 2 ^ j * (2 * p) \<and> 2 ^ j * (2 * p) < 9007199254740992 * q"
      using 1(3,4) True by (intro 1(1)) simp_all
    then obtain j where j: "float64 (2 * p) q = (round_half_even (2 ^ j * (2 * p)) q, - int j)"
      "4503599627370496 * q \<le> 2 ^ j * (2 * p)" "2 ^ j * (2 * p) < 9007199254740992 * q"
      by blast
    have e: "2 ^ j * (2 * p) = 2 ^ Suc j * p" by simp
    have "float64 p q = (round_half_even (2 ^ Suc j * p) q, - int (Suc j))"
      using 1(3,4) True j(1) unfolding e by (subst float64.simps) simp
    moreover have "4503599627370496 * q \<le> 2 ^ Suc j * p" "2 ^ Suc j * p < 9007199254740992 * q"
      using j(2,3) unfolding e by blast+
    ultimately show ?thesis by blast
  next
    case False
    then have "float64 p q = (round_half_even (2 ^ 0 * p) q, - int 0)"
      using 1(3,4,5) by (subst float64.simps) simp
    moreover have "4503599627370496 * q \<le> 2 ^ 0 * p" "2 ^ 0 * p < 9007199254740992 * q"
      using False 1(5) by simp_all
    ultimately show ?thesis by blast
  qed
qed

lemma true_divide_trunc:
  assumes "0 \<le> n" "n < 9007199254740992"
  shows "float_trunc (true_divide n 1000000000) = n div 1000000000"
proof (cases "n = 0")
  case True
  then show ?thesis
    by (simp add: true_divide_def float_trunc_def float64.simps)
next
  case False
  let ?Q = "1000000000 :: int"
  let ?k = "n div ?Q"
  have n: "0 < n" using assms(1) False by simp
  from float64_small [of n 1] n assms(2)
  obtain i where i: "float64 n 1 = (2 ^ i * n, - int i)"
    "4503599627370496 \<le> 2 ^ i * n" "2 ^ i * n < 9007199254740992"
    by auto
  let ?m = "2 ^ i * n"
  have "0 < ?m" using n by simp
  moreover have "?m < 9007199254740992 * ?Q" using i(3) by simp
  ultimately obtain j where j: "float64 ?m ?Q = (round_half_even (2 ^ j * ?m) ?Q, - int j)"
    "4503599627370496 * ?Q \<le> 2 ^ j * ?m" "2 ^ j * ?m < 9007199254740992 * ?Q"
    using float64_small [of ?m ?Q] by auto
  let ?B = "2 ^ (i + j) :: int"
  let ?m2 = "round_half_even (?B * n) ?Q"
  have B: "2 ^ j * ?m = ?B * n" by (simp add: power_add mult.assoc mult.left_commute)
  have td: "true_divide n ?Q = (?m2, - int (i + j))"
    using i(1) j(1) by (simp add: true_divide_def B)
  have Bpos: "0 < ?B" by simp
  have "2 ^ j * ?m < 2 ^ j * 9007199254740992"
    using i(3) by (intro mult_strict_left_mono) simp_all
  with j(2) have "4503599627370496 * ?Q < 2 ^ j * (9007199254740992 :: int)" by linarith
  then have "?Q < 2 * (2 ^ j :: int)" by simp
  moreover have "(2 ^ j :: int) \<le> ?B" by (simp add: power_add)
  ultimately have big: "?Q < 2 * ?B" by linarith
  have nk: "n = ?k * ?Q + n mod ?Q" by simp
  have r: "0 \<le> n mod ?Q" "n mod ?Q < ?Q" by simp_all
  have lower: "?k * ?B \<le> ?m2"
  proof (rule round_half_even_ge)
    have "?k * ?Q \<le> n" using nk r(1) by linarith
    then have "?B * (?k * ?Q) \<le> ?B * n" using Bpos by (intro mult_left_mono) simp_all
    then show "?k * ?B * ?Q \<le> ?B * n" by (simp add: algebra_simps)
  qed simp
  have upper: "?m2 < (?k + 1) * ?B"
  proof (rule round_half_even_less)
    have "n + 1 \<le> (?k + 1) * ?Q" using nk r(2) by (simp add: algebra_simps)
    then have "?B * (n + 1) \<le> ?B * ((?k + 1) * ?Q)" using Bpos by (intro mult_left_mono) simp_all
    then have "2 * (?B * n) + 2 * ?B \<le> 2 * ((?k + 1) * ?B) * ?Q" by (simp add: algebra_simps)
    then have "2 * (?B * n) < 2 * ((?k + 1) * ?B) * ?Q - ?Q" using big by linarith
    then show "2 * (?B * n) < (2 * ((?k + 1) * ?B) - 1) * ?Q" by (simp add: algebra_simps)
  qed simp
  have "?m2 div ?B = ?k"
  proof -
    have "?m2 = ?B * ?k + (?m2 - ?k * ?B)" by simp
    moreover have "0 \<le> ?m2 - ?k * ?B" "?m2 - ?k * ?B < ?B"
      using lower upper by (simp_all add: algebra_simps)
    ultimately show ?thesis by (rule int_div_pos_eq)
  qed
  then show ?thesis
    unfolding td by (simp only: float_trunc_neg)
qed

lemma whole_seconds_exact:
  assumes "0 \<le> n" "n < 9007199254740992"
  shows "whole_seconds (Some n) = n div 1000000000"
proof -
  have a: "\<bar>n\<bar> = n" using assms(1) by simp
  have "n div 1000000000 < 9007199254740992 div 1000000000 + 1"
    using assms(2) zdiv_mono1 [of n 9007199254740992 1000000000] by simp
  moreover have "0 \<le> n div 1000000000" using assms(1) by simp
  ultimately have r: "in_int32 (n div 1000000000)"
    by (simp add: in_int32_def)
  show ?thesis
  proof (cases "n = 0")
    case True
    then show ?thesis
      by (simp add: whole_seconds_def true_divide_def float_trunc_def float64.simps
          astype_int32_def in_int32_def)
  next
    case False
    then have "sgn n = 1" using assms(1) by simp
    then show ?thesis
      using r by (simp add: whole_seconds_def a true_divide_trunc [OF assms] astype_int32_def)
  qed
qed

lemma global_session_id_with_durations [simp]:
  "map global_session_id (with_durations xs) = map global_session_id xs"
  by (induction xs) auto

lemma event_time_with_durations [simp]:
  "map event_time (with_durations xs) = map event_time xs"
  by (induction xs) auto

lemma find_same_session_filter:
  "global_session_id r = s \<Longrightarrow>
   find (same_session r) (filter (\<lambda>x. global_session_id x = s) xs) = find (same_session r) xs"
  by (induction xs) (auto simp: same_session_def)

lemma session_rows_with_durations:
  "session_rows s (with_durations xs) = with_durations (session_rows s xs)"
  by (induction xs) (auto simp: session_rows_def next_time_def find_same_session_filter)

lemma with_durations_one_session:
  assumes "\<forall>r \<in> set xs. global_session_id r = s"
    and "map event_time xs = map Some ts"
    and "sorted ts"
    and "\<forall>i. Suc i < length ts \<longrightarrow> ts ! Suc i - ts ! i < 9007199254740992"
  shows "map duration_seconds (with_durations xs) = whole_second_gaps ts"
  using assms
proof (induction ts arbitrary: xs rule: whole_second_gaps.induct)
  case 1
  then show ?case by simp
next
  case (2 t)
  then obtain r where "xs = [r]" "event_time r = Some t" by auto
  then show ?case by (simp add: next_time_def time_diff_def whole_seconds_def)
next
  case (3 t u ts)
  then obtain r x later where xs: "xs = r # x # later" "event_time r = Some t" "event_time x = Some u"
    "map event_time (x # later) = map Some (u # ts)"
    by (auto simp: map_eq_Cons_conv)
  have s: "same_session r x" using 3(2) xs(1) by (simp add: same_session_def)
  have le: "0 \<le> u - t" using 3(4) by simp
  have "u - t < 9007199254740992" using 3(5) [rule_format, of 0] by simp
  with le have gap: "whole_seconds (Some (u - t)) = (u - t) div 1000000000"
    by (rule whole_seconds_exact)
  have "\<forall>i. Suc i < length (u # ts) \<longrightarrow> (u # ts) ! Suc i - (u # ts) ! i < 9007199254740992"
  proof (intro allI impI)
    fix i assume "Suc i < length (u # ts)"
    then have "Suc (Suc i) < length (t # u # ts)" by simp
    from 3(5) [rule_format, OF this]
    show "(u # ts) ! Suc i - (u # ts) ! i < 9007199254740992" by simp
  qed
  then have "map duration_seconds (with_durations (x # later)) = whole_second_gaps (u # ts)"
    using 3(2,4) xs by (intro 3(1)) auto
  then show ?case
    using xs s gap by (simp add: next_time_def time_diff_def)
qed


lemma session_times_sorted:
  assumes "map event_time (session_rows s (sort_rows xs)) = map Some ts"
  shows "sorted ts"
proof -
  let ?ys = "session_rows s (sort_rows xs)"
  have "sorted (map row_sort_key (sort_rows xs))"
    by (simp add: sort_rows_def)
  then have "sorted (map row_sort_key ?ys)"
    unfolding session_rows_def by (rule sorted_filter)
  moreover have "map row_sort_key ?ys = map (\<lambda>t. (s, (0, t))) ts"
  proof -
    have "\<forall>r \<in> set ?ys. row_sort_key r = (s, na_last (event_time r))"
      by (simp add: session_rows_def row_sort_key_def)
    then have "map row_sort_key ?ys = map (\<lambda>t. (s, na_last t)) (map event_time ?ys)"
      by (simp add: comp_def)
    also have "\<dots> = map (\<lambda>t. (s, (0, t))) ts"
      unfolding assms by (simp add: na_last_def comp_def)
    finally show ?thesis .
  qed
  ultimately have "sorted (map (\<lambda>t. (s, (0::nat, t))) ts)" by simp
  then show ?thesis
    by (simp add: sorted_map sorted_wrt_iff_nth_less) 
qed

lemma whole_second_gaps_length [simp]: "length (whole_second_gaps ts) = length ts"
  by (induction ts rule: whole_second_gaps.induct) auto

lemma whole_second_gaps_Nil [simp]: "(whole_second_gaps ts = []) = (ts = [])"
  by (induction ts rule: whole_second_gaps.induct) auto

lemma whole_second_gaps_last: "ts \<noteq> [] \<Longrightarrow> last (whole_second_gaps ts) = 0"
  by (induction ts rule: whole_second_gaps.induct) auto

lemma whole_second_gaps_nth:
  "Suc i < length ts \<Longrightarrow> whole_second_gaps ts ! i = (ts ! Suc i - ts ! i) div 1000000000"
proof (induction ts arbitrary: i rule: whole_second_gaps.induct)
  case (3 t u ts)
  then show ?case by (cases i) auto
qed auto

lemma whole_second_gaps_sum_le:
  "ts \<noteq> [] \<Longrightarrow> sum_list (whole_second_gaps ts) * 1000000000 \<le> last ts - hd ts"
proof (induction ts rule: whole_second_gaps.induct)
  case (3 t u ts)
  have "(u - t) div 1000000000 * 1000000000 + (u - t) mod 1000000000 = u - t"
    by (rule div_mult_mod_eq)
  moreover have "0 \<le> (u - t) mod 1000000000" by simp
  ultimately have "(u - t) div 1000000000 * 1000000000 \<le> u - t" by linarith
  with 3 show ?case by (simp add: algebra_simps)
qed auto

lemma whole_second_gaps_sum_exact:
  assumes "ts \<noteq> []"
    and "\<forall>i. Suc i < length ts \<longrightarrow> (ts ! Suc i - ts ! i) mod 1000000000 = 0"
  shows "sum_list (whole_second_gaps ts) * 1000000000 = last ts - hd ts"
  using assms
proof (induction ts rule: whole_second_gaps.induct)
  case (3 t u ts)
  have "(u - t) mod 1000000000 = 0" using 3(3) by force
  then have a: "(u - t) div 1000000000 * 1000000000 = u - t"
    by (simp add: mod_eq_0_iff_dvd)
  have "\<forall>i. Suc i < length (u # ts) \<longrightarrow> ((u # ts) ! Suc i - (u # ts) ! i) mod 1000000000 = 0"
  proof (intro allI impI)
    fix i assume "Suc i < length (u # ts)"
    then have "Suc (Suc i) < length (t # u # ts)" by simp
    from 3(3) [rule_format, OF this] show "((u # ts) ! Suc i - (u # ts) ! i) mod 1000000000 = 0"
      by simp
  qed
  then have "sum_list (whole_second_gaps (u # ts)) * 1000000000 = last (u # ts) - hd (u # ts)"
    using 3(1) by simp
  with a show ?case by (simp add: algebra_simps)
qed auto

text \<open>Past the bound the seconds are no longer the exact quotient: a gap of
  \<open>2 * 10 ^ 16 - 1\<close> nanoseconds is not a double and its quotient comes out as
  \<open>2 * 10 ^ 7\<close>, and a gap of 2207520000 seconds is outside the 32-bit range.\<close>

lemma whole_seconds_past_bound:
  "whole_seconds (Some 19999999999999999) = 20000000
   \<and> whole_seconds (Some 2207520000000000000) = - 2147483648"
  by code_simp

text \<open>
  Claim C2, amended. For a session whose events, in chronological order, are at the
  times \<open>ts\<close> (nanoseconds), consecutive events less than \<open>2 ^ 53\<close> nanoseconds (104 days)
  apart, the normalizer gives every event the gap to the next event of the session cut
  down to whole seconds and the last event 0. The durations never add up to more than the
  time from the first to the last event, and they add up to exactly that time when
  consecutive events are a whole number of seconds apart.
\<close>

theorem calculate_event_duration_gaps:
  assumes "duration_input df"
    and "map event_time (session_rows s (sort_rows (rows df))) = map Some ts"
    and "ts \<noteq> []"
    and "\<forall>i. Suc i < length ts \<longrightarrow> ts ! Suc i - ts ! i < 9007199254740992"
  shows "\<exists>out. calculate_event_duration (Some df) = Inr out
     \<and> length (rows out) = length (rows df)
     \<and> map event_time (session_rows s (rows out)) = map Some ts
     \<and> map duration_seconds (session_rows s (rows out)) = whole_second_gaps ts
     \<and> (\<forall>i. Suc i < length ts \<longrightarrow>
           map duration_seconds (session_rows s (rows out)) ! i
             = (ts ! Suc i - ts ! i) div 1000000000)
     \<and> last (map duration_seconds (session_rows s (rows out))) = 0
     \<and> sum_list (map duration_seconds (session_rows s (rows out))) * 1000000000
           \<le> last ts - hd ts
     \<and> ((\<forall>i. Suc i < length ts \<longrightarrow> (ts ! Suc i - ts ! i) mod 1000000000 = 0) \<longrightarrow>
           sum_list (map duration_seconds (session_rows s (rows out))) * 1000000000
             = last ts - hd ts)"
proof -
  let ?out = "\<lparr>columns = add_column Duration_seconds (columns df),
               rows = with_durations (sort_rows (rows df))\<rparr>"
  let ?ys = "session_rows s (sort_rows (rows df))"
  have run: "calculate_event_duration (Some df) = Inr ?out"
    using assms(1) by (simp add: calculate_event_duration_def duration_input_def)
  have len: "length (rows ?out) = length (rows df)"
    using length_map [of global_session_id "with_durations (sort_rows (rows df))"]
    by (simp add: sort_rows_def)
  have sess: "session_rows s (rows ?out) = with_durations ?ys"
    by (simp add: session_rows_with_durations)
  have times: "map event_time (with_durations ?ys) = map Some ts"
    using assms(2) by (simp add: event_time_with_durations)
  have "\<forall>r \<in> set ?ys. global_session_id r = s"
    by (simp add: session_rows_def)
  then have durs: "map duration_seconds (with_durations ?ys) = whole_second_gaps ts"
    using assms(2) session_times_sorted [OF assms(2)] assms(4)
    by (rule with_durations_one_session)
  have d: "map duration_seconds (session_rows s (rows ?out)) = whole_second_gaps ts"
    using durs sess by simp
  have t: "map event_time (session_rows s (rows ?out)) = map Some ts"
    using times sess by simp
  show ?thesis
  proof (intro exI [of _ ?out] conjI)
    show "calculate_event_duration (Some df) = Inr ?out" by (rule run)
    show "length (rows ?out) = length (rows df)" by (rule len)
    show "map event_time (session_rows s (rows ?out)) = map Some ts" by (rule t)
    show "map duration_seconds (session_rows s (rows ?out)) = whole_second_gaps ts" by (rule d)
    show "\<forall>i. Suc i < length ts \<longrightarrow>
           map duration_seconds (session_rows s (rows ?out)) ! i
             = (ts ! Suc i - ts ! i) div 1000000000"
      unfolding d by (simp add: whole_second_gaps_nth)
    show "last (map duration_seconds (session_rows s (rows ?out))) = 0"
      unfolding d using assms(3) by (rule whole_second_gaps_last)
    show "sum_list (map duration_seconds (session_rows s (rows ?out))) * 1000000000
           \<le> last ts - hd ts"
      unfolding d using assms(3) by (rule whole_second_gaps_sum_le)
    show "(\<forall>i. Suc i < length ts \<longrightarrow> (ts ! Suc i - ts ! i) mod 1000000000 = 0) \<longrightarrow>
           sum_list (map duration_seconds (session_rows s (rows ?out))) * 1000000000
             = last ts - hd ts"
      unfolding d using assms(3) whole_second_gaps_sum_exact by blast
  qed
qed


text \<open>
  Scenario C: events at 10:00:00, 10:00:05 and 10:00:12 get the durations 5, 7, 0.
\<close>

theorem calculate_event_duration_gaps_witness:
  "duration_input example_scenario_c
   \<and> map event_time (session_rows 2 (sort_rows (rows example_scenario_c)))
        = map Some [1759140000000000000, 1759140005000000000, 1759140012000000000]
   \<and> session_durations 2 (calculate_event_duration (Some example_scenario_c)) = [5, 7, 0]
   \<and> sum_list (session_durations 2 (calculate_event_duration (Some example_scenario_c)))
         * 1000000000 = 1759140012000000000 - 1759140000000000000"
proof -
  let ?ts = "[1759140000000000000, 1759140005000000000, 1759140012000000000] :: int list"
  have h1: "duration_input example_scenario_c"
    by (simp add: duration_input_def example_scenario_c_def)
  have h2: "map event_time (session_rows 2 (sort_rows (rows example_scenario_c))) = map Some ?ts"
    by code_simp
  have h3: "?ts \<noteq> []" by simp
  have h4: "\<forall>i. Suc i < length ?ts \<longrightarrow> ?ts ! Suc i - ?ts ! i < 9007199254740992"
    by (simp add: less_Suc_eq all_conj_distrib)
  from calculate_event_duration_gaps [OF h1 h2 h3 h4] obtain out where
    "calculate_event_duration (Some example_scenario_c) = Inr out"
    "map duration_seconds (session_rows 2 (rows out)) = whole_second_gaps ?ts"
    by blast
  then have "session_durations 2 (calculate_event_duration (Some example_scenario_c))
               = whole_second_gaps ?ts"
    by (simp add: session_durations_def)
  then have "session_durations 2 (calculate_event_duration (Some example_scenario_c)) = [5, 7, 0]"
    by simp
  with h1 h2 show ?thesis by simp
qed

text \<open>
  Claim C2 as stated fails on timestamps that are not whole seconds: three events 0.6
  seconds apart get the durations 0, 0, 0, whose sum is neither the 1.2 seconds between
  the first and the last event nor that time in whole seconds.
\<close>

theorem calculate_event_duration_conservation_counterexample:
  "map event_time (session_rows 1 (sort_rows (rows example_subsecond)))
        = map Some [1759140000000000000, 1759140000600000000, 1759140001200000000]
   \<and> session_durations 1 (calculate_event_duration (Some example_subsecond)) = [0, 0, 0]
   \<and> sum_list (session_durations 1 (calculate_event_duration (Some example_subsecond)))
         * 1000000000 \<noteq> 1759140001200000000 - 1759140000000000000
   \<and> sum_list (session_durations 1 (calculate_event_duration (Some example_subsecond)))
         \<noteq> (1759140001200000000 - 1759140000000000000) div 1000000000"
  by code_simp

subsection \<open>Duplicate Collapser: runs of one key\<close>

lemma new_group_Nil: "new_group [] r"
  by (simp add: new_group_def)

lemma new_group_Cons: "new_group (p # prior) r = (run_key p \<noteq> run_key r)"
  by (auto simp: new_group_def is_duplicate_def prev_key_def same_session_def run_key_def)

lemma group_by_cumsum_runs:
  assumes "\<And>p prior r. flag (p # prior) r = (k p \<noteq> k r)"
  shows "group_by_cumsum flag prior xs = runs k xs"
  using assms by (induction flag prior xs rule: group_by_cumsum.induct) simp_all

lemma runs_Nil_iff [simp]: "(runs k xs = []) = (xs = [])"
  by (induction k xs rule: runs.induct) (auto split: list.splits)

lemma runs_nonempty: "g \<in> set (runs k xs) \<Longrightarrow> g \<noteq> []"
  by (induction k xs arbitrary: g rule: runs.induct) (auto split: if_splits list.splits)

lemma concat_runs [simp]: "concat (runs k xs) = xs"
  by (induction k xs rule: runs.induct) (auto split: list.splits)

lemma hd_hd_runs: "xs \<noteq> [] \<Longrightarrow> hd (hd (runs k xs)) = hd xs"
  by (induction k xs rule: runs.induct) (auto split: list.splits)

lemma runs_Cons:
  "ys \<noteq> [] \<Longrightarrow> runs k (x # ys) =
     (if k x \<noteq> k (hd ys) then [x] # runs k ys else (x # hd (runs k ys)) # tl (runs k ys))"
  by (cases ys) (auto split: list.splits)

lemma runs_append:
  assumes "xs \<noteq> []" "ys \<noteq> []" "k (last xs) \<noteq> k (hd ys)"
  shows "runs k (xs @ ys) = runs k xs @ runs k ys"
  using assms
proof (induction k xs rule: runs.induct)
  case (1 k)
  then show ?case by simp
next
  case (2 k r)
  then show ?case by (simp add: runs_Cons)
next
  case (3 k r x rs)
  then have ih: "runs k ((x # rs) @ ys) = runs k (x # rs) @ runs k ys"
    by (cases "k r = k x") auto
  have ne: "runs k (x # rs) \<noteq> []" by simp
  show ?case
    using ih ne by (cases "runs k (x # rs)") (auto simp: runs_Cons [of "x # rs @ ys"])
qed

lemma runs_same_key:
  assumes "xs \<noteq> []" "\<forall>x \<in> set xs. k x = c"
  shows "runs k xs = [xs]"
  using assms
proof (induction k xs rule: runs.induct)
  case (3 k r x rs)
  then show ?case by simp
qed simp_all

text \<open>A maximal run keeps its place between the runs in front of it and the runs after it.\<close>

lemma runs_decompose:
  assumes "run \<noteq> []" "\<forall>x \<in> set run. k x = c"
    and "pre = [] \<or> k (last pre) \<noteq> c"
    and "post = [] \<or> k (hd post) \<noteq> c"
  shows "runs k (pre @ run @ post) = runs k pre @ [run] @ runs k post"
proof -
  have hd_c: "k (hd run) = c" and last_c: "k (last run) = c"
    using assms(1,2) by simp_all
  have right: "runs k (run @ post) = [run] @ runs k post"
  proof (cases "post = []")
    case True
    then show ?thesis using runs_same_key [OF assms(1,2)] by simp
  next
    case False
    with assms(4) last_c have "k (last run) \<noteq> k (hd post)" by simp
    with assms(1) False have "runs k (run @ post) = runs k run @ runs k post"
      by (intro runs_append)
    then show ?thesis using runs_same_key [OF assms(1,2)] by simp
  qed
  show ?thesis
  proof (cases "pre = []")
    case True
    then show ?thesis using right by simp
  next
    case False
    with assms(3) hd_c assms(1) have "k (last pre) \<noteq> k (hd (run @ post))" by simp
    with False assms(1) have "runs k (pre @ run @ post) = runs k pre @ runs k (run @ post)"
      by (intro runs_append) simp_all
    then show ?thesis using right by simp
  qed
qed

lemma runs_map:
  assumes "\<And>x. k (f x) = k x"
  shows "runs k (map f xs) = map (map f) (runs k xs)"
  using assms by (induction k xs rule: runs.induct) (auto split: list.splits)

lemma insort_key_map:
  assumes "\<And>x. k (f x) = k x"
  shows "insort_key k (f x) (map f xs) = map f (insort_key k x xs)"
  by (induction xs) (simp_all add: assms)

lemma sort_key_map_same_key:
  assumes "\<And>x. k (f x) = k x"
  shows "sort_key k (map f xs) = map f (sort_key k xs)"
proof (induction xs)
  case Nil
  then show ?case by simp
next
  case (Cons x xs)
  have "insort_key k (f x) (map f (sort_key k xs)) = map f (insort_key k x (sort_key k xs))"
    using assms by (rule insort_key_map)
  with Cons show ?case by simp
qed


lemma sort_rows_map:
  assumes "\<And>x. row_sort_key (f x) = row_sort_key x"
  shows "sort_rows (map f xs) = map f (sort_rows xs)"
  unfolding sort_rows_def using assms by (rule sort_key_map_same_key)


lemma astype_int32_zero [simp]: "astype_int32 from_float 0 = 0"
  by (simp add: astype_int32_def in_int32_def)

lemma groups_runs: "group_by_cumsum new_group [] xs = runs run_key xs"
  by (simp add: group_by_cumsum_runs [where k = run_key] new_group_Cons)


lemma collapse_runs_runs:
  "collapse_runs xs
     = map (collapse_group (removed_duration_is_float (runs run_key xs))) (runs run_key xs)"
  by (simp add: collapse_runs_def groups_runs Let_def)

lemma init_counters_keys [simp]:
  "row_sort_key (init_counters cs r) = row_sort_key r"
  "run_key (init_counters cs r) = run_key r"
  by (simp_all add: init_counters_def row_sort_key_def run_key_def comparison_key_def)








subsection \<open>Duplicate Collapser: the first pass applied twice\<close>

lemma runs_hd_key:
  "xs \<noteq> [] \<Longrightarrow> \<forall>y \<in> set (hd (runs k xs)). k y = k (hd xs)"
proof (induction xs)
  case Nil
  then show ?case by simp
next
  case (Cons x xs)
  show ?case
  proof (cases "xs = []")
    case True
    then show ?thesis by simp
  next
    case False
    then have ih: "\<forall>y \<in> set (hd (runs k xs)). k y = k (hd xs)" by (rule Cons.IH)
    show ?thesis
    proof (cases "k x \<noteq> k (hd xs)")
      case True
      with False show ?thesis by (simp add: runs_Cons del: runs.simps)
    next
      case eq: False
      with False ih show ?thesis by (simp add: runs_Cons del: runs.simps)
    qed
  qed
qed

lemma set_last_runs: "set (map last (runs k xs)) \<subseteq> set xs"
proof -
  have "\<And>g. g \<in> set (runs k xs) \<Longrightarrow> last g \<in> set xs"
  proof -
    fix g assume g: "g \<in> set (runs k xs)"
    then have "g \<noteq> []" by (rule runs_nonempty)
    then have "last g \<in> set g" by simp
    moreover have "set xs = (\<Union>h \<in> set (runs k xs). set h)"
      using set_concat [of "runs k xs"] by simp
    ultimately show "last g \<in> set xs" using g by blast
  qed
  then show ?thesis by auto
qed

lemma map_last_runs_Cons:
  "ys \<noteq> [] \<Longrightarrow> map last (runs k (x # ys)) =
     (if k x \<noteq> k (hd ys) then x # map last (runs k ys) else map last (runs k ys))"
proof -
  assume ne: "ys \<noteq> []"
  then obtain g gs where g: "runs k ys = g # gs"
    by (cases "runs k ys") auto
  then have "g \<noteq> []" using runs_nonempty [of g k ys] by simp
  with ne g show ?thesis by (simp add: runs_Cons)
qed

lemma sorted_last_runs:
  "sorted (map f xs) \<Longrightarrow> sorted (map f (map last (runs k xs)))"
proof (induction xs)
  case Nil
  then show ?case by simp
next
  case (Cons x xs)
  show ?case
  proof (cases "xs = []")
    case True
    then show ?thesis by simp
  next
    case False
    have ih: "sorted (map f (map last (runs k xs)))" using Cons by simp
    have "\<forall>y \<in> set (map last (runs k xs)). f x \<le> f y"
      using Cons.prems set_last_runs [of k xs] by auto
    with ih False show ?thesis
      by (simp add: map_last_runs_Cons del: runs.simps)
  qed
qed

lemma key_changed_last_runs:
  "successively (\<lambda>a b. k a \<noteq> k b) (map last (runs k xs))"
proof (induction xs)
  case Nil
  then show ?case by simp
next
  case (Cons x xs)
  show ?case
  proof (cases "xs = []")
    case True
    then show ?thesis by simp
  next
    case False
    then obtain g gs where g: "runs k xs = g # gs"
      by (cases "runs k xs") auto
    then have ne: "g \<noteq> []" using runs_nonempty [of g k xs] by simp
    have "\<forall>y \<in> set g. k y = k (hd xs)"
      using runs_hd_key [OF False, of k] g by simp
    then have "k (last g) = k (hd xs)" using ne by simp
    then show ?thesis
      using Cons False g by (simp add: map_last_runs_Cons successively_Cons del: runs.simps)
  qed
qed

lemma runs_singletons:
  "successively (\<lambda>a b. k a \<noteq> k b) ys \<Longrightarrow> runs k ys = map (\<lambda>y. [y]) ys"
proof (induction ys)
  case Nil
  then show ?case by simp
next
  case (Cons y ys)
  show ?case
  proof (cases ys)
    case Nil
    then show ?thesis by simp
  next
    case (Cons z zs)
    with Cons.prems have "k y \<noteq> k z" "successively (\<lambda>a b. k a \<noteq> k b) ys" by simp_all
    with Cons.IH Cons show ?thesis by simp
  qed
qed


lemma collapse_group_keys [simp]:
  "row_sort_key (collapse_group from_float g) = row_sort_key (last g)"
  "run_key (collapse_group from_float g) = run_key (last g)"
  by (simp_all add: collapse_group_def row_sort_key_def run_key_def comparison_key_def)

lemma reset_counters_keys [simp]:
  "row_sort_key (reset_counters r) = row_sort_key r"
  "run_key (reset_counters r) = run_key r"
  by (simp_all add: reset_counters_def row_sort_key_def run_key_def comparison_key_def)

lemma collapse_runs_sorted:
  assumes "sorted (map row_sort_key xs)"
  shows "sorted (map row_sort_key (collapse_runs xs))"
proof -
  have "map row_sort_key (collapse_runs xs) = map row_sort_key (map last (runs run_key xs))"
    by (simp add: collapse_runs_runs comp_def)
  then show ?thesis using sorted_last_runs [OF assms] by simp
qed

lemma collapse_runs_key_changed:
  "successively (\<lambda>a b. run_key a \<noteq> run_key b) (collapse_runs xs)"
proof -
  have "map run_key (collapse_runs xs) = map run_key (map last (runs run_key xs))"
    by (simp add: collapse_runs_runs comp_def)
  moreover have "successively (\<noteq>) (map run_key (map last (runs run_key xs)))"
    using key_changed_last_runs [of run_key xs] by (simp only: successively_map)
  ultimately have "successively (\<noteq>) (map run_key (collapse_runs xs))" by simp
  then show ?thesis by (simp only: successively_map)
qed

lemma collapse_group_single:
  "Duration_seconds \<in> set cs \<Longrightarrow>
     collapse_group from_float [init_counters cs r] = reset_counters r"
  by (simp add: collapse_group_def init_counters_def reset_counters_def is_meaningful_action_def)

text \<open>On a table that is in (session, time) order and has no two neighbours with one
  session and key, the pass resets the counters and changes nothing else.\<close>

lemma collapse_runs_already_collapsed:
  assumes "sorted (map row_sort_key ys)"
    and "successively (\<lambda>a b. run_key a \<noteq> run_key b) ys"
    and "Duration_seconds \<in> set cs"
  shows "collapse_runs (sort_rows (map (init_counters cs) ys)) = map reset_counters ys"
proof -
  have "sort_rows (map (init_counters cs) ys) = map (init_counters cs) (sort_rows ys)"
    by (rule sort_rows_map) simp
  also have "sort_rows ys = ys"
    unfolding sort_rows_def using assms(1) by (rule sort_key_id_if_sorted)
  finally have srt: "sort_rows (map (init_counters cs) ys) = map (init_counters cs) ys" .
  have "runs run_key (map (init_counters cs) ys) = map (map (init_counters cs)) (runs run_key ys)"
    by (rule runs_map) simp
  also have "runs run_key ys = map (\<lambda>y. [y]) ys"
    using assms(2) by (rule runs_singletons)
  finally have "runs run_key (map (init_counters cs) ys) = map (\<lambda>y. [init_counters cs y]) ys"
    by (simp add: comp_def)
  then show ?thesis
    using assms(3) by (simp add: srt collapse_runs_runs comp_def collapse_group_single)
qed


lemma set_add_column [simp]: "set (add_column c cs) = insert c (set cs)"
  by (auto simp: add_column_def)

lemma add_column_present: "c \<in> set cs \<Longrightarrow> add_column c cs = cs"
  by (simp add: add_column_def)

lemma second_pass:
  assumes "collapse_input d"
    and "Click_count \<in> set (columns d)" "Dbl_duration_seconds \<in> set (columns d)"
      "Dbl_count \<in> set (columns d)" "Duration_seconds \<in> set (columns d)"
    and "sorted (map row_sort_key (rows d))"
    and "successively (\<lambda>a b. run_key a \<noteq> run_key b) (rows d)"
  shows "remove_consecutive_duplicates_with_clicks (Some d)
           = Inr \<lparr>columns = columns d, rows = map reset_counters (rows d)\<rparr>"
proof -
  have "add_column Duration_seconds (add_column Dbl_count
          (add_column Dbl_duration_seconds (add_column Click_count (columns d)))) = columns d"
    using assms(2-5) by (simp add: add_column_present)
  moreover have "collapse_runs (sort_rows (map (init_counters (columns d)) (rows d)))
      = map reset_counters (rows d)"
    using assms(6,7,5) by (rule collapse_runs_already_collapsed)
  ultimately show ?thesis
    using assms(1)
    by (simp add: remove_consecutive_duplicates_with_clicks_def collapse_input_def)
qed

lemma reset_counters_idem [simp]: "reset_counters (reset_counters r) = reset_counters r"
  by (simp add: reset_counters_def)

lemma collapse_runs_Nil_iff [simp]: "(collapse_runs xs = []) = (xs = [])"
  by (simp add: collapse_runs_runs)

lemma sort_rows_Nil_iff [simp]: "(sort_rows xs = []) = (xs = [])"
  using length_sort [of row_sort_key xs] by (auto simp: sort_rows_def simp del: length_sort)

text \<open>
  Claim C5, amended. Applying the pass to its own result keeps the columns, the rows,
  their order and every field of every row except the three counters, which the pass
  creates anew: \<open>click_count\<close> becomes 1, \<open>dbl_duration_seconds\<close> and \<open>dbl_count\<close> become 0.
  From the second application on, the pass changes nothing.
\<close>

theorem run_collapse_twice:
  assumes "collapse_input df"
  shows "\<exists>out out2. remove_consecutive_duplicates_with_clicks (Some df) = Inr out
     \<and> twice remove_consecutive_duplicates_with_clicks df = Inr out2
     \<and> columns out2 = columns out
     \<and> rows out2 = map reset_counters (rows out)
     \<and> remove_consecutive_duplicates_with_clicks (Some out2) = Inr out2"
proof -
  let ?cs = "add_column Duration_seconds (add_column Dbl_count
               (add_column Dbl_duration_seconds (add_column Click_count (columns df))))"
  let ?ys = "collapse_runs (sort_rows (map (init_counters (columns df)) (rows df)))"
  let ?out = "\<lparr>columns = ?cs, rows = ?ys\<rparr>"
  let ?out2 = "\<lparr>columns = ?cs, rows = map reset_counters ?ys\<rparr>"
  have first: "remove_consecutive_duplicates_with_clicks (Some df) = Inr ?out"
    using assms by (simp add: remove_consecutive_duplicates_with_clicks_def collapse_input_def)
  have cols: "Click_count \<in> set ?cs" "Dbl_duration_seconds \<in> set ?cs" "Dbl_count \<in> set ?cs"
    "Duration_seconds \<in> set ?cs"
    by simp_all
  have ne: "?ys \<noteq> []"
    using assms by (simp add: collapse_input_def)
  have inp: "collapse_input ?out" "collapse_input ?out2"
    using assms ne by (simp_all add: collapse_input_def)
  have srt: "sorted (map row_sort_key ?ys)"
    by (rule collapse_runs_sorted) (simp add: sort_rows_def)
  have chg: "successively (\<lambda>a b. run_key a \<noteq> run_key b) ?ys"
    by (rule collapse_runs_key_changed)
  have second: "remove_consecutive_duplicates_with_clicks (Some ?out) = Inr ?out2"
    using second_pass [OF inp(1)] cols srt chg by simp
  have srt2: "sorted (map row_sort_key (map reset_counters ?ys))"
    using srt by (simp add: comp_def)
  have chg2: "successively (\<lambda>a b. run_key a \<noteq> run_key b) (map reset_counters ?ys)"
    using chg by (simp add: successively_map)
  have third: "remove_consecutive_duplicates_with_clicks (Some ?out2) = Inr ?out2"
    using second_pass [OF inp(2)] cols srt2 chg2 by (simp add: comp_def)
  have "twice remove_consecutive_duplicates_with_clicks df = Inr ?out2"
    using first second by (simp add: twice_def)
  with first third show ?thesis
    by (intro exI [of _ ?out] exI [of _ ?out2]) simp
qed

text \<open>
  On the example the second application keeps the three rows and their durations 5, 10
  and 0 and resets the counters.
\<close>

theorem run_collapse_twice_witness:
  "collapse_input example_clicks
   \<and> map counters (result_rows (remove_consecutive_duplicates_with_clicks (Some example_clicks)))
       = [(5, 1, 3, 1), (10, 2, 5, 1), (0, 1, 0, 0)]
   \<and> map counters (result_rows (twice remove_consecutive_duplicates_with_clicks example_clicks))
       = [(5, 1, 0, 0), (10, 1, 0, 0), (0, 1, 0, 0)]
   \<and> result_rows (twice remove_consecutive_duplicates_with_clicks example_clicks)
       = map reset_counters
           (result_rows (remove_consecutive_duplicates_with_clicks (Some example_clicks)))"
proof -
  have h: "collapse_input example_clicks"
    by (simp add: collapse_input_def example_clicks_def)
  from run_collapse_twice [OF h] obtain out out2 where
    o: "remove_consecutive_duplicates_with_clicks (Some example_clicks) = Inr out"
      "twice remove_consecutive_duplicates_with_clicks example_clicks = Inr out2"
      "rows out2 = map reset_counters (rows out)"
    by blast
  have once: "map counters
      (result_rows (remove_consecutive_duplicates_with_clicks (Some example_clicks)))
       = [(5, 1, 3, 1), (10, 2, 5, 1), (0, 1, 0, 0)]"
    by code_simp
  then have "map counters (rows out) = [(5, 1, 3, 1), (10, 2, 5, 1), (0, 1, 0, 0)]"
    using o(1) by (simp add: result_rows_def)
  then have "map counters (map reset_counters (rows out)) = [(5, 1, 0, 0), (10, 1, 0, 0), (0, 1, 0, 0)]"
    by (auto simp: counters_def reset_counters_def)
  with h once o show ?thesis
    by (simp add: result_rows_def)
qed

text \<open>
  Claim C5 as stated fails: (duration, click_count, dbl_duration_seconds, dbl_count) of
  the three rows of the example after one application and after two. The two taps that
  one application records as 2 clicks with one removed row of 5 seconds are 1 click with
  no removed row after the second.
\<close>

theorem run_collapse_idempotence_counterexample:
  "map counters (result_rows (remove_consecutive_duplicates_with_clicks (Some example_clicks)))
       = [(5, 1, 3, 1), (10, 2, 5, 1), (0, 1, 0, 0)]
   \<and> map counters (result_rows (twice remove_consecutive_duplicates_with_clicks example_clicks))
       = [(5, 1, 0, 0), (10, 1, 0, 0), (0, 1, 0, 0)]
   \<and> twice remove_consecutive_duplicates_with_clicks example_clicks
       \<noteq> remove_consecutive_duplicates_with_clicks (Some example_clicks)"
proof -
  have once: "map counters
      (result_rows (remove_consecutive_duplicates_with_clicks (Some example_clicks)))
       = [(5, 1, 3, 1), (10, 2, 5, 1), (0, 1, 0, 0)]"
    by code_simp
  have two: "map counters
      (result_rows (twice remove_consecutive_duplicates_with_clicks example_clicks))
       = [(5, 1, 0, 0), (10, 1, 0, 0), (0, 1, 0, 0)]"
    by code_simp
  from once two have "twice remove_consecutive_duplicates_with_clicks example_clicks
       \<noteq> remove_consecutive_duplicates_with_clicks (Some example_clicks)"
    by auto
  with once two show ?thesis by simp
qed

subsection \<open>Duplicate Collapser: runs of one screen\<close>

lemma screen_changed_Cons: "screen_changed (p # prior) r = (screen_run_key p \<noteq> screen_run_key r)"
  by (auto simp: screen_changed_def prev_screen_def same_session_def screen_run_key_def)

lemma collapse_screens_runs:
  "collapse_screens xs = concat (map collapse_screen_group (runs screen_run_key xs))"
  unfolding collapse_screens_def
  by (simp add: group_by_cumsum_runs [where k = screen_run_key] screen_changed_Cons)

lemma fill_duration_present [simp]:
  "Duration_seconds \<in> set cs \<Longrightarrow> fill_duration cs = (\<lambda>r. r)"
  by (rule ext) (simp add: fill_duration_def)

text \<open>What the loop body comes to, in one formula.\<close>

lemma collapse_screen_group_eq:
  "collapse_screen_group g =
     (if list_ex (\<lambda>r. action r \<noteq> not_specified) g
      then (hd (filter (\<lambda>r. action r \<noteq> not_specified) g))
             \<lparr>duration_seconds :=
                duration_seconds (hd (filter (\<lambda>r. action r \<noteq> not_specified) g))
                + sum_list (map duration_seconds (filter (\<lambda>r. action r = not_specified) g))\<rparr>
           # tl (filter (\<lambda>r. action r \<noteq> not_specified) g)
      else g)"
proof (cases "list_ex (\<lambda>r. action r \<noteq> not_specified) g")
  case False
  then have "filter (\<lambda>r. action r \<noteq> not_specified) g = []"
    by (auto simp: list_ex_iff filter_empty_conv)
  with False show ?thesis by (simp add: collapse_screen_group_def Let_def)
next
  case True
  let ?ms = "filter (\<lambda>r. action r \<noteq> not_specified) g"
  let ?ns = "filter (\<lambda>r. action r = not_specified) g"
  have ms: "?ms \<noteq> []" using True by (auto simp: list_ex_iff filter_empty_conv)
  show ?thesis
  proof (cases "?ns = []")
    case ns: True
    then have "\<forall>r \<in> set g. action r \<noteq> not_specified"
      by (auto simp: filter_empty_conv)
    then have all: "?ms = g" by simp
    have "(hd g)\<lparr>duration_seconds := duration_seconds (hd g) + 0\<rparr> # tl g = g"
      using ms all by (cases g) auto
    with True ns all show ?thesis
      by (simp add: collapse_screen_group_def Let_def)
  next
    case ns: False
    have "\<not> length g < 2"
    proof
      assume "length g < 2"
      then obtain r where "g = [] \<or> g = [r]"
        by (cases g) (auto simp: length_Suc_conv)
      with ms ns show False by (auto split: if_splits)
    qed
    with True ms ns show ?thesis
      by (simp add: collapse_screen_group_def Let_def)
  qed
qed


text \<open>
  Claim C6. Let the table, in (session, time) order, be \<open>pre @ run @ post\<close>, where \<open>run\<close>
  is a maximal run of consecutive rows of one session on one screen. If some row of the
  run has an action other than the sentinel, the pass deletes every sentinel row of the
  run and adds the summed duration of the deleted rows to the first row that is not a
  sentinel row; the other rows of the run stay as they are, in their order. If every row
  of the run has the sentinel action, the run stays as it is. The rows in front of the
  run and after it are collapsed on their own.
\<close>

theorem screen_collapse:
  assumes "screen_input df"
    and "sort_rows (rows df) = pre @ run @ post"
    and "run \<noteq> []"
    and "\<forall>r \<in> set run. global_session_id r = s \<and> screen r = c"
    and "pre = [] \<or> global_session_id (last pre) \<noteq> s \<or> screen (last pre) \<noteq> c"
    and "post = [] \<or> global_session_id (hd post) \<noteq> s \<or> screen (hd post) \<noteq> c"
  shows "\<exists>out. collapse_intermediate_screens (Some df) = Inr out
     \<and> rows out = collapse_screens pre
          @ (if list_ex (\<lambda>r. action r \<noteq> not_specified) run
             then (hd (filter (\<lambda>r. action r \<noteq> not_specified) run))
                    \<lparr>duration_seconds :=
                       duration_seconds (hd (filter (\<lambda>r. action r \<noteq> not_specified) run))
                       + sum_list (map duration_seconds
                           (filter (\<lambda>r. action r = not_specified) run))\<rparr>
                  # tl (filter (\<lambda>r. action r \<noteq> not_specified) run)
             else run)
          @ collapse_screens post"
proof -
  let ?out = "\<lparr>columns = add_column Duration_seconds (columns df),
               rows = collapse_screens (sort_rows (map (fill_duration (columns df)) (rows df)))\<rparr>"
  have run: "collapse_intermediate_screens (Some df) = Inr ?out"
    using assms(1) by (simp add: collapse_intermediate_screens_def screen_input_def)
  have "Duration_seconds \<in> set (columns df)"
    using assms(1) by (simp add: screen_input_def)
  then have "rows ?out = collapse_screens (pre @ run @ post)"
    using assms(2) by simp
  moreover have "runs screen_run_key (pre @ run @ post)
        = runs screen_run_key pre @ [run] @ runs screen_run_key post"
  proof -
    have "\<forall>r \<in> set run. screen_run_key r = (s, c)"
      using assms(4) by (simp add: screen_run_key_def)
    moreover have "pre = [] \<or> screen_run_key (last pre) \<noteq> (s, c)"
      using assms(5) by (auto simp: screen_run_key_def)
    moreover have "post = [] \<or> screen_run_key (hd post) \<noteq> (s, c)"
      using assms(6) by (auto simp: screen_run_key_def)
    ultimately show ?thesis
      using assms(3) by (intro runs_decompose)
  qed
  ultimately have "rows ?out
      = collapse_screens pre @ collapse_screen_group run @ collapse_screens post"
    by (simp add: collapse_screens_runs)
  then show ?thesis
    using run by (simp only: collapse_screen_group_eq [of run] exI [of _ ?out] simp_thms)
qed


text \<open>
  The run on screen "New" loses its two sentinel rows, whose 5 + 3 seconds go to the tap;
  the run on screen "List", sentinel rows only, is kept.
\<close>

theorem screen_collapse_witness:
  "screen_input example_screens
   \<and> sort_rows (rows example_screens)
       = [] @ [example_row 1 1759140000000000000 ''New'' not_specified 5,
               example_row 1 1759140005000000000 ''New'' not_specified 3,
               example_row 1 1759140008000000000 ''New'' ''Tap'' 10,
               example_row 1 1759140018000000000 ''New'' ''Choose'' 5]
            @ [example_row 1 1759140023000000000 ''List'' not_specified 4,
               example_row 1 1759140027000000000 ''List'' not_specified 0]
   \<and> result_rows (collapse_intermediate_screens (Some example_screens))
       = [example_row 1 1759140008000000000 ''New'' ''Tap'' 18,
          example_row 1 1759140018000000000 ''New'' ''Choose'' 5,
          example_row 1 1759140023000000000 ''List'' not_specified 4,
          example_row 1 1759140027000000000 ''List'' not_specified 0]"
proof -
  let ?run = "[example_row 1 1759140000000000000 ''New'' not_specified 5,
               example_row 1 1759140005000000000 ''New'' not_specified 3,
               example_row 1 1759140008000000000 ''New'' ''Tap'' 10,
               example_row 1 1759140018000000000 ''New'' ''Choose'' 5]"
  let ?post = "[example_row 1 1759140023000000000 ''List'' not_specified 4,
               example_row 1 1759140027000000000 ''List'' not_specified 0]"
  have h1: "screen_input example_screens"
    by (simp add: screen_input_def example_screens_def)
  have h2: "sort_rows (rows example_screens) = [] @ ?run @ ?post"
    by code_simp
  have h3: "?run \<noteq> []" by simp
  have h4: "\<forall>r \<in> set ?run. global_session_id r = 1 \<and> screen r = ''New''"
    by (simp add: example_row_def)
  have h5: "([] :: row list) = [] \<or> global_session_id (last []) \<noteq> 1 \<or> screen (last []) \<noteq> ''New''"
    by simp
  have h6: "?post = [] \<or> global_session_id (hd ?post) \<noteq> 1 \<or> screen (hd ?post) \<noteq> ''New''"
    by (simp add: example_row_def)
  from screen_collapse [OF h1 h2 h3 h4 h5 h6] obtain out where
    out: "collapse_intermediate_screens (Some example_screens) = Inr out"
      "rows out = collapse_screens []
          @ (if list_ex (\<lambda>r. action r \<noteq> not_specified) ?run
             then (hd (filter (\<lambda>r. action r \<noteq> not_specified) ?run))
                    \<lparr>duration_seconds :=
                       duration_seconds (hd (filter (\<lambda>r. action r \<noteq> not_specified) ?run))
                       + sum_list (map duration_seconds
                           (filter (\<lambda>r. action r = not_specified) ?run))\<rparr>
                  # tl (filter (\<lambda>r. action r \<noteq> not_specified) ?run)
             else ?run)
          @ collapse_screens ?post"
    by blast
  have pre: "collapse_screens [] = []"
    by (simp add: collapse_screens_def)
  have post: "collapse_screens ?post = ?post"
    by code_simp
  have mid: "(if list_ex (\<lambda>r. action r \<noteq> not_specified) ?run
             then (hd (filter (\<lambda>r. action r \<noteq> not_specified) ?run))
                    \<lparr>duration_seconds :=
                       duration_seconds (hd (filter (\<lambda>r. action r \<noteq> not_specified) ?run))
                       + sum_list (map duration_seconds
                           (filter (\<lambda>r. action r = not_specified) ?run))\<rparr>
                  # tl (filter (\<lambda>r. action r \<noteq> not_specified) ?run)
             else ?run)
       = [example_row 1 1759140008000000000 ''New'' ''Tap'' 18,
          example_row 1 1759140018000000000 ''New'' ''Choose'' 5]"
    by code_simp
  have "result_rows (collapse_intermediate_screens (Some example_screens)) = rows out"
    using out(1) by (simp add: result_rows_def)
  then show ?thesis
    using h1 h2 unfolding out(2) pre post mid by simp
qed

subsection \<open>Trailing menu events\<close>

lemma map_fst_mark_to_remove [simp]: "map fst (mark_to_remove xs) = xs"
  by (induction xs) auto

lemma unmarked_rows_Nil [simp]: "unmarked_rows [] = []"
  by (simp add: unmarked_rows_def)














subsection \<open>Cohort Labeler\<close>

lemma device_months_active: "(m \<in> set (device_months rs d)) = active_in rs d m"
  unfolding device_months_def active_in_def
  by (induction rs) (auto split: option.splits)

lemma user_status_device:
  assumes "r \<in> set rs"
  shows "user_status rs (device_id r) = Some (classify (device_months rs (device_id r)))"
proof -
  let ?ds = "sort (remdups (map device_id rs))"
  have "map (\<lambda>(user_id, months). (user_id, classify months)) (user_months rs)
      = map (\<lambda>d. (d, classify (device_months rs d))) ?ds"
    by (simp add: user_months_def)
  then have "user_status rs = (Some \<circ> (\<lambda>d. classify (device_months rs d))) |` set ?ds"
    by (simp add: user_status_def map_of_map_restrict)
  moreover have "device_id r \<in> set ?ds" using assms by simp
  ultimately show ?thesis by simp
qed

lemma classify_flags:
  "is_lost (classify ms) = (9 \<in> set ms \<and> 10 \<notin> set ms)"
  "is_stay (classify ms) = (9 \<in> set ms \<and> 10 \<in> set ms)"
  "is_new (classify ms) = (9 \<notin> set ms \<and> 10 \<in> set ms)"
  by (simp_all add: classify_def Let_def)

text \<open>
  Claim C8. On a table it accepts the labeler returns the same rows, each with three
  flags that depend on the row's device only: \<open>is_lost\<close> holds exactly when the device has
  an event in month 9 and none in month 10, \<open>is_stay\<close> exactly when it has events in both
  months, \<open>is_new\<close> exactly when it has an event in month 10 and none in month 9. A device
  with no event in either month therefore gets three false flags, and all rows of one
  device carry the same flags.
\<close>

theorem cohort_labels:
  assumes "cohort_input df"
  shows "\<exists>out. add_user_cohort_status (Some df) = Inr out
     \<and> map fst (rows out) = rows df
     \<and> (\<forall>(r, st) \<in> set (rows out).
           is_lost st = (active_in (rows df) (device_id r) 9 \<and> \<not> active_in (rows df) (device_id r) 10)
         \<and> is_stay st = (active_in (rows df) (device_id r) 9 \<and> active_in (rows df) (device_id r) 10)
         \<and> is_new st = (\<not> active_in (rows df) (device_id r) 9 \<and> active_in (rows df) (device_id r) 10))
     \<and> (\<forall>(r, st) \<in> set (rows out). \<forall>(r', st') \<in> set (rows out).
           device_id r = device_id r' \<longrightarrow> st = st')"
proof -
  let ?rs = "rows df"
  let ?out = "\<lparr>columns = add_column Is_new (add_column Is_stay (add_column Is_lost (columns df))),
               rows = map (\<lambda>r. (r, row_status ?rs r)) ?rs\<rparr>"
  have run: "add_user_cohort_status (Some df) = Inr ?out"
    using assms by (simp add: add_user_cohort_status_def cohort_input_def)
  have same: "map fst (rows ?out) = ?rs"
    by (simp add: comp_def)
  have st: "row_status ?rs r = classify (device_months ?rs (device_id r))" if "r \<in> set ?rs" for r
    using user_status_device [OF that] by (simp add: row_status_def)
  have flags: "\<forall>(r, st) \<in> set (rows ?out).
           is_lost st = (active_in ?rs (device_id r) 9 \<and> \<not> active_in ?rs (device_id r) 10)
         \<and> is_stay st = (active_in ?rs (device_id r) 9 \<and> active_in ?rs (device_id r) 10)
         \<and> is_new st = (\<not> active_in ?rs (device_id r) 9 \<and> active_in ?rs (device_id r) 10)"
    by (auto simp: st classify_flags device_months_active)
  have bc: "\<forall>(r, st) \<in> set (rows ?out). \<forall>(r', st') \<in> set (rows ?out).
           device_id r = device_id r' \<longrightarrow> st = st'"
    by (auto simp: st)
  from run same flags bc show ?thesis by blast
qed


text \<open>
  Scenario B and its neighbours: device 1 (September only) is lost on both of its rows,
  device 2 stays, device 3 is new, device 4 (August and a row without a date) has all
  three flags false.
\<close>

theorem cohort_labels_witness:
  "cohort_input example_cohorts
   \<and> active_in (rows example_cohorts) 1 9 \<and> \<not> active_in (rows example_cohorts) 1 10
   \<and> \<not> active_in (rows example_cohorts) 4 9 \<and> \<not> active_in (rows example_cohorts) 4 10
   \<and> labelled_rows (add_user_cohort_status (Some example_cohorts))
       = [(1, True, False, False), (2, False, True, False), (3, False, False, True),
          (4, False, False, False), (2, False, True, False), (1, True, False, False),
          (4, False, False, False)]
   \<and> (\<exists>out. add_user_cohort_status (Some example_cohorts) = Inr out
          \<and> map fst (rows out) = rows example_cohorts)"
proof -
  have h: "cohort_input example_cohorts"
    by (simp add: cohort_input_def example_cohorts_def)
  have a: "active_in (rows example_cohorts) 1 9" "\<not> active_in (rows example_cohorts) 1 10"
    "\<not> active_in (rows example_cohorts) 4 9" "\<not> active_in (rows example_cohorts) 4 10"
    by code_simp+
  have l: "labelled_rows (add_user_cohort_status (Some example_cohorts))
       = [(1, True, False, False), (2, False, True, False), (3, False, False, True),
          (4, False, False, False), (2, False, True, False), (1, True, False, False),
          (4, False, False, False)]"
    by code_simp
  from cohort_labels [OF h] have "\<exists>out. add_user_cohort_status (Some example_cohorts) = Inr out
          \<and> map fst (rows out) = rows example_cohorts"
    by blast
  with h a l show ?thesis by simp
qed

subsection \<open>Taxonomy Lookup\<close>

lemma fold_upd_lookup:
  "fold (\<lambda>a m. m(f a \<mapsto> g a)) xs m k = Some v \<Longrightarrow>
     m k = Some v \<or> (\<exists>a \<in> set xs. f a = k \<and> g a = v)"
proof (induction xs arbitrary: m)
  case Nil
  then show ?case by simp
next
  case (Cons x xs)
  from Cons.prems have "fold (\<lambda>a m. m(f a \<mapsto> g a)) xs (m(f x \<mapsto> g x)) k = Some v"
    by (simp only: fold.simps o_apply)
  from Cons.IH [OF this]
  have "(m(f x \<mapsto> g x)) k = Some v \<or> (\<exists>a \<in> set xs. f a = k \<and> g a = v)" .
  then show ?case
  proof
    assume u: "(m(f x \<mapsto> g x)) k = Some v"
    show ?thesis
    proof (cases "k = f x")
      case True
      with u have "g x = v" by simp
      with True show ?thesis by auto
    next
      case False
      with u show ?thesis by simp
    qed
  next
    assume "\<exists>a \<in> set xs. f a = k \<and> g a = v"
    then show ?thesis by auto
  qed
qed

text \<open>Every block of the membership dictionary is a block of the taxonomy.\<close>

lemma add_group_block:
  assumes "action_to_block (add_group name g L) k = Some (b, n)"
  shows "action_to_block L k = Some (b, n) \<or> b = name"
proof -
  obtain tb su re where L: "L = (tb, su, re)" by (cases L)
  from assms have "fold (\<lambda>a m. m(group_key g a \<mapsto> (name, step_or_zero a)))
           (regular_actions g @ cancel_actions g @ exit_actions g @ success_actions g) tb k
        = Some (b, n)"
    by (simp add: L add_group_def action_to_block_def)
  from fold_upd_lookup [OF this] show ?thesis
    by (auto simp: L action_to_block_def)
qed

lemma add_groups_block:
  "action_to_block (fold (add_group name) gs L) k = Some (b, n) \<Longrightarrow>
     action_to_block L k = Some (b, n) \<or> b = name"
proof (induction gs arbitrary: L)
  case Nil
  then show ?case by simp
next
  case (Cons g gs)
  from Cons.IH [of "add_group name g L"] Cons.prems
  have "action_to_block (add_group name g L) k = Some (b, n) \<or> b = name" by simp
  then show ?case using add_group_block by blast
qed

lemma build_blocks_block:
  "action_to_block
     (fold (\<lambda>b L. fold (add_group (block_name b)) (block_groups b) L) bs L) k = Some (b, n) \<Longrightarrow>
   action_to_block L k = Some (b, n) \<or> b \<in> block_name ` set bs"
proof (induction bs arbitrary: L)
  case Nil
  then show ?case by simp
next
  case (Cons x bs)
  from Cons.IH [of "fold (add_group (block_name x)) (block_groups x) L"] Cons.prems
  have "action_to_block (fold (add_group (block_name x)) (block_groups x) L) k = Some (b, n)
      \<or> b \<in> block_name ` set bs" by simp
  then show ?case using add_groups_block by fastforce
qed

lemma action_to_block_in_taxonomy:
  assumes "action_to_block (build_action_lookup blocks_data) k = Some (b, n)"
  shows "b \<in> block_name ` set blocks_data"
  using build_blocks_block [of blocks_data "(Map.empty, Map.empty, Map.empty)" k b n] assms
  by (simp add: build_action_lookup_def action_to_block_def)

text \<open>
  Claim C7 does not hold of the code. The loop that fills the membership dictionary
  runs over the regular, cancel, exit and success-action lists and leaves the
  success-review list out, so a triple that the taxonomy lists as success-review only is
  in the review dictionary and in no block: here the view of the example taxonomy, next
  to the tap, which is a member of the block with its step.
\<close>

theorem build_action_lookup_review_only:
  "action_to_block (build_action_lookup example_taxonomy) (''Home'', ''Open'', ''View'') = None
   \<and> review_lookup (build_action_lookup example_taxonomy) (''Home'', ''Open'', ''View'')
       = Some ''Profile''
   \<and> action_to_block (build_action_lookup example_taxonomy) (''Home'', ''Open'', ''Tap'')
       = Some (''Profile'', 1)"
  by (simp add: action_to_block_def review_lookup_def build_action_lookup_def add_group_def
        example_taxonomy_def group_key_def step_or_zero_def)

subsection \<open>Block Feature Aggregator\<close>

subsection \<open>Block prefixes and column names\<close>

lemma prefixes_map_names_distinct: "distinct (map fst prefixes_map)"
  by code_simp

lemma prefixes_map_prefixes_distinct: "distinct (map snd prefixes_map)"
  by code_simp

lemma known_columns_metric:
  "list_all (\<lambda>p. list_all (\<lambda>m. metric_of_column (feature_column p m) = m) metrics)
     (map snd prefixes_map)"
  by code_simp

lemma known_columns_fill_value:
  "list_all (\<lambda>p. list_all (\<lambda>m. fill_value (feature_column p m) = untouched_value m) metrics)
     (map snd prefixes_map)"
  by code_simp

lemma metrics_all: "m \<in> set metrics"
  by (cases m) (simp_all add: metrics_def)

lemma metrics_distinct: "distinct metrics"
  by (simp add: metrics_def)

lemma known_prefix:
  assumes "n \<in> set (map fst prefixes_map)"
  shows "(n, prefix_of prefixes_map n) \<in> set prefixes_map"
proof -
  from assms obtain p where "map_of prefixes_map n = Some p"
    by (metis map_of_eq_None_iff not_Some_eq set_map)
  then show ?thesis
    by (simp add: prefix_of_def map_of_SomeD)
qed

lemma known_prefix_mem:
  "n \<in> set (map fst prefixes_map) \<Longrightarrow> prefix_of prefixes_map n \<in> set (map snd prefixes_map)"
  using known_prefix [of n] by force

lemma known_prefix_inj:
  assumes "n \<in> set (map fst prefixes_map)" "n' \<in> set (map fst prefixes_map)"
    and "prefix_of prefixes_map n = prefix_of prefixes_map n'"
  shows "n = n'"
proof -
  have "inj_on snd (set prefixes_map)"
    using prefixes_map_prefixes_distinct by (simp add: distinct_map)
  moreover have "(n, prefix_of prefixes_map n) \<in> set prefixes_map"
    using assms(1) by (rule known_prefix)
  moreover have "(n', prefix_of prefixes_map n') \<in> set prefixes_map"
    using assms(2) by (rule known_prefix)
  moreover have "snd (n, prefix_of prefixes_map n) = snd (n', prefix_of prefixes_map n')"
    using assms(3) by simp
  ultimately have "(n, prefix_of prefixes_map n) = (n', prefix_of prefixes_map n')"
    by (metis inj_onD)
  then show ?thesis by simp
qed

lemma feature_column_metric:
  "p \<in> set (map snd prefixes_map) \<Longrightarrow> metric_of_column (feature_column p m) = m"
  using known_columns_metric metrics_all [of m] by (auto simp: list_all_iff)

lemma feature_column_fill_value:
  "p \<in> set (map snd prefixes_map) \<Longrightarrow> fill_value (feature_column p m) = untouched_value m"
  using known_columns_fill_value metrics_all [of m] by (auto simp: list_all_iff)

lemma feature_column_inj:
  assumes "p \<in> set (map snd prefixes_map)" "p' \<in> set (map snd prefixes_map)"
    and "feature_column p m = feature_column p' m'"
  shows "p = p' \<and> m = m'"
proof -
  have "m = m'"
    using feature_column_metric [OF assms(1), of m] feature_column_metric [OF assms(2), of m']
      assms(3) by simp
  with assms(3) show ?thesis by (simp add: feature_column_def)
qed

text \<open>The name of the column of a block of the prefix table and a metric.\<close>

lemma known_column_inj:
  assumes "n \<in> set (map fst prefixes_map)" "n' \<in> set (map fst prefixes_map)"
    and "feature_column (prefix_of prefixes_map n) m = feature_column (prefix_of prefixes_map n') m'"
  shows "n = n' \<and> m = m'"
proof -
  have "prefix_of prefixes_map n = prefix_of prefixes_map n' \<and> m = m'"
    using assms by (intro feature_column_inj known_prefix_mem)
  with known_prefix_inj [OF assms(1,2)] show ?thesis by simp
qed

lemma dict_set_new: "k \<notin> fst ` set d \<Longrightarrow> dict_set k v d = d @ [(k, v)]"
  by (induction d) auto

lemma generate_prefixes_fold:
  assumes "distinct (map block_name bs)"
    and "set (map block_name bs) \<subseteq> set (map fst prefixes_map)"
    and "set (map block_name bs) \<inter> fst ` set acc = {}"
  shows "fold (\<lambda>b result.
             dict_set (block_name b)
               (case map_of prefixes_map (block_name b) of
                  Some pfx \<Rightarrow> pfx
                | None \<Rightarrow> ''block_'' @ str_nat (length result))
               result) bs acc
         = acc @ map (\<lambda>b. (block_name b, prefix_of prefixes_map (block_name b))) bs"
  using assms
proof (induction bs arbitrary: acc)
  case Nil
  then show ?case by simp
next
  case (Cons b bs)
  let ?n = "block_name b"
  have kn: "?n \<in> set (map fst prefixes_map)" using Cons.prems(2) by simp
  then obtain p where p: "map_of prefixes_map ?n = Some p"
    by (metis map_of_eq_None_iff not_Some_eq set_map)
  then have pp: "prefix_of prefixes_map ?n = p" by (simp add: prefix_of_def)
  have new: "?n \<notin> fst ` set acc" using Cons.prems(3) by auto
  have step: "dict_set ?n p acc = acc @ [(?n, p)]" using new by (rule dict_set_new)
  have d: "distinct (map block_name bs)" and s: "set (map block_name bs) \<subseteq> set (map fst prefixes_map)"
    using Cons.prems(1,2) by simp_all
  have i: "set (map block_name bs) \<inter> fst ` set (acc @ [(?n, p)]) = {}"
    using Cons.prems(1,3) by auto
  show ?case
    using Cons.IH [OF d s i] by (simp add: p pp step)
qed

lemma generate_prefixes_known:
  assumes "known_blocks bs"
  shows "generate_prefixes bs = map (\<lambda>b. (block_name b, prefix_of prefixes_map (block_name b))) bs"
  using assms generate_prefixes_fold [of bs "[]"]
  by (simp add: generate_prefixes_def known_blocks_def)

lemma prefix_of_generate_prefixes:
  assumes "known_blocks bs" "b \<in> set bs"
  shows "prefix_of (generate_prefixes bs) (block_name b) = prefix_of prefixes_map (block_name b)"
proof -
  have "map_of (map (\<lambda>n. (n, prefix_of prefixes_map n)) (map block_name bs)) (block_name b)
      = Some (prefix_of prefixes_map (block_name b))"
    using assms(2) by (simp only: map_of_map_restrict) simp
  moreover have "generate_prefixes bs
      = map (\<lambda>n. (n, prefix_of prefixes_map n)) (map block_name bs)"
    by (simp add: generate_prefixes_known [OF assms(1)] comp_def)
  ultimately have m: "map_of (generate_prefixes bs) (block_name b)
      = Some (prefix_of prefixes_map (block_name b))"
    by simp
  show ?thesis
    by (subst prefix_of_def) (simp add: m)
qed


subsection \<open>The last fill\<close>

lemma map_of_fill_present:
  "map_of (map (\<lambda>cv. if fst cv = c then (fst cv, Some (fillna d (snd cv))) else cv) cells) k
     = (if k = c then map_option (\<lambda>v. Some (fillna d v)) (map_of cells c) else map_of cells k)"
  by (induction cells) auto

lemma map_of_fill_column:
  "map_of (fill_column (c, d) cells) k
     = (if k = c
        then Some (Some (fillna d (case map_of cells c of None \<Rightarrow> None | Some v \<Rightarrow> v)))
        else map_of cells k)"
proof (cases "c \<in> set (map fst cells)")
  case True
  then obtain v where "map_of cells c = Some v"
    by (metis map_of_eq_None_iff not_Some_eq set_map)
  with True show ?thesis
    by (simp add: fill_column_def map_of_fill_present)
next
  case False
  then have "map_of cells c = None"
    by (simp add: map_of_eq_None_iff)
  with False show ?thesis
    by (auto simp: fill_column_def map_add_def fillna_def split: option.splits)
qed

lemma fst_fill_column:
  "map fst (fill_column cd cells)
     = (if fst cd \<in> set (map fst cells) then map fst cells else map fst cells @ [fst cd])"
proof -
  have "map fst (map (\<lambda>cv. if fst cv = fst cd then (fst cv, Some (fillna (snd cd) (snd cv))) else cv)
          cells) = map fst cells"
    by (induction cells) auto
  then show ?thesis by (simp add: fill_column_def)
qed

lemma fold_fill_column_lookup:
  assumes "\<forall>cd \<in> set pl. snd cd = dflt (fst cd)"
  shows "map_of (fold fill_column pl cells) k
     = (if k \<in> fst ` set pl
        then Some (Some (fillna (dflt k) (case map_of cells k of None \<Rightarrow> None | Some v \<Rightarrow> v)))
        else map_of cells k)"
  using assms
proof (induction pl arbitrary: cells)
  case Nil
  then show ?case by simp
next
  case (Cons cd pl)
  obtain c d where cd: "cd = (c, d)" by (cases cd)
  have d: "d = dflt c" using Cons.prems cd by simp
  have ih: "map_of (fold fill_column pl (fill_column (c, d) cells)) k
     = (if k \<in> fst ` set pl
        then Some (Some (fillna (dflt k)
               (case map_of (fill_column (c, d) cells) k of None \<Rightarrow> None | Some v \<Rightarrow> v)))
        else map_of (fill_column (c, d) cells) k)"
    using Cons.prems by (intro Cons.IH) simp
  show ?case
  proof (cases "k = c")
    case True
    then show ?thesis
      using ih d by (simp add: cd map_of_fill_column fillna_def)
  next
    case False
    then show ?thesis
      using ih by (simp add: cd map_of_fill_column)
  qed
qed

lemma fold_fill_column_names:
  "set (map fst (fold fill_column pl cells)) = set (map fst cells) \<union> fst ` set pl"
proof (induction pl arbitrary: cells)
  case Nil
  then show ?case by simp
next
  case (Cons cd pl)
  have "set (map fst (fill_column cd cells)) = insert (fst cd) (set (map fst cells))"
    by (auto simp: fst_fill_column)
  then show ?case using Cons.IH [of "fill_column cd cells"] by auto
qed

lemma fold_fill_column_distinct:
  "distinct (map fst cells) \<Longrightarrow> distinct (map fst (fold fill_column pl cells))"
proof (induction pl arbitrary: cells)
  case Nil
  then show ?case by simp
next
  case (Cons cd pl)
  have "distinct (map fst (fill_column cd cells))"
    using Cons.prems by (simp add: fst_fill_column)
  then show ?case using Cons.IH [of "fill_column cd cells"] by simp
qed

lemma map_of_map_inj:
  assumes "inj_on f (insert x0 (set xs))"
  shows "map_of (map (\<lambda>x. (f x, g x)) xs) (f x0) = (if x0 \<in> set xs then Some (g x0) else None)"
  using assms
proof (induction xs)
  case Nil
  then show ?case by simp
next
  case (Cons x xs)
  have inj: "inj_on f (insert x0 (set xs))"
    using Cons.prems by (auto simp: inj_on_def)
  have eq: "(f x = f x0) = (x = x0)"
    using Cons.prems by (auto simp: inj_on_def)
  show ?case
    using Cons.IH [OF inj] eq by auto
qed

lemma concat_map_product:
  "concat (map (\<lambda>x. map (\<lambda>y. h x y) ys) xs) = map (\<lambda>xy. h (fst xy) (snd xy)) (List.product xs ys)"
  by (induction xs) (simp_all add: comp_def)


subsection \<open>The feature table\<close>

lemma set_map_filter_conv: "set (List.map_filter f xs) = {y. \<exists>x \<in> set xs. f x = Some y}"
  by (induction xs) (auto split: option.splits)

lemma features_blocks_set:
  "set (features_blocks L rs) = {n. \<exists>r \<in> set rs. block_of L r = Some n}"
  by (simp add: features_blocks_def set_map_filter_conv)

lemma features_index_set:
  "set (features_index L rs) = {s. \<exists>r \<in> set rs. global_session_id r = s \<and> block_of L r \<noteq> None}"
  by (auto simp: features_index_def)

lemma block_of_in_taxonomy:
  assumes "block_of (build_action_lookup bs) r = Some n"
  shows "n \<in> block_name ` set bs"
proof -
  from assms obtain st where "action_to_block (build_action_lookup bs) (action_key_of r) = Some (n, st)"
    by (auto simp: block_of_def)
  then show ?thesis by (rule action_to_block_in_taxonomy)
qed

lemma pivot_cell_untouched:
  "block_rows L rs s n = [] \<Longrightarrow> pivot_cell L rs m s n = None"
  by (simp add: pivot_cell_def)

lemma pivot_cell_touched:
  "block_rows L rs s n \<noteq> [] \<Longrightarrow>
     pivot_cell L rs m s n = Some (aggregate L m (block_rows L rs s n))"
  by (cases "block_rows L rs s n") (simp_all add: pivot_cell_def)

lemma block_rows_no_block:
  "n \<notin> set (features_blocks L rs) \<Longrightarrow> block_rows L rs s n = []"
  by (auto simp: features_blocks_set block_rows_def filter_empty_conv)

lemma block_rows_no_session:
  "s \<notin> set (features_index L rs) \<Longrightarrow> block_rows L rs s n = []"
  by (auto simp: features_index_set block_rows_def filter_empty_conv)

text \<open>In a taxonomy of known blocks the pivots have the columns of those blocks.\<close>

lemma features_blocks_known:
  assumes "known_blocks bs" "n \<in> set (features_blocks (build_action_lookup bs) rs)"
  shows "n \<in> block_name ` set bs" "n \<in> set (map fst prefixes_map)"
    "prefix_of (generate_prefixes bs) n = prefix_of prefixes_map n"
proof -
  from assms(2) obtain r where "block_of (build_action_lookup bs) r = Some n"
    by (auto simp: features_blocks_set)
  then show n: "n \<in> block_name ` set bs" by (rule block_of_in_taxonomy)
  then show "n \<in> set (map fst prefixes_map)"
    using assms(1) by (auto simp: known_blocks_def)
  from n obtain b where "b \<in> set bs" "n = block_name b" by auto
  then show "prefix_of (generate_prefixes bs) n = prefix_of prefixes_map n"
    using prefix_of_generate_prefixes [OF assms(1)] by simp
qed

lemma features_row_known:
  assumes "known_blocks bs"
  shows "features_row (generate_prefixes bs) (build_action_lookup bs) rs s
     = map (\<lambda>mb. (feature_column (prefix_of prefixes_map (snd mb)) (fst mb),
                    astype_int32 (pivot_is_float (build_action_lookup bs) rs)
                      (fillna (untouched_value (fst mb))
                         (pivot_cell (build_action_lookup bs) rs (fst mb) s (snd mb)))))
         (List.product metrics (features_blocks (build_action_lookup bs) rs))"
proof -
  let ?L = "build_action_lookup bs" and ?P = "generate_prefixes bs"
  have "features_row ?P ?L rs s
     = map (\<lambda>mb. (feature_column (prefix_of ?P (snd mb)) (fst mb),
                    astype_int32 (pivot_is_float ?L rs)
                      (fillna (fill_value (feature_column (prefix_of ?P (snd mb)) (fst mb)))
                         (pivot_cell ?L rs (fst mb) s (snd mb)))))
         (List.product metrics (features_blocks ?L rs))"
    unfolding features_row_def by (rule concat_map_product)
  also have "\<dots> = map (\<lambda>mb. (feature_column (prefix_of prefixes_map (snd mb)) (fst mb),
                    astype_int32 (pivot_is_float ?L rs)
                      (fillna (untouched_value (fst mb)) (pivot_cell ?L rs (fst mb) s (snd mb)))))
         (List.product metrics (features_blocks ?L rs))"
  proof (rule map_cong [OF refl])
    fix mb assume "mb \<in> set (List.product metrics (features_blocks ?L rs))"
    then have n: "snd mb \<in> set (features_blocks ?L rs)" by auto
    have p: "prefix_of ?P (snd mb) = prefix_of prefixes_map (snd mb)"
      using features_blocks_known(3) [OF assms n] .
    have "prefix_of prefixes_map (snd mb) \<in> set (map snd prefixes_map)"
      using features_blocks_known(2) [OF assms n] by (rule known_prefix_mem)
    then have "fill_value (feature_column (prefix_of prefixes_map (snd mb)) (fst mb))
        = untouched_value (fst mb)"
      by (rule feature_column_fill_value)
    with p show "(feature_column (prefix_of ?P (snd mb)) (fst mb),
                    astype_int32 (pivot_is_float ?L rs)
                      (fillna (fill_value (feature_column (prefix_of ?P (snd mb)) (fst mb)))
                         (pivot_cell ?L rs (fst mb) s (snd mb))))
        = (feature_column (prefix_of prefixes_map (snd mb)) (fst mb),
                    astype_int32 (pivot_is_float ?L rs)
                      (fillna (untouched_value (fst mb)) (pivot_cell ?L rs (fst mb) s (snd mb))))"
      by simp
  qed
  finally show ?thesis .
qed

lemma features_columns_known:
  assumes "known_blocks bs"
  shows "features_columns (generate_prefixes bs) (build_action_lookup bs) rs
     = map (\<lambda>mb. feature_column (prefix_of prefixes_map (snd mb)) (fst mb))
         (List.product metrics (features_blocks (build_action_lookup bs) rs))"
proof -
  let ?L = "build_action_lookup bs" and ?P = "generate_prefixes bs"
  have "features_columns ?P ?L rs
     = map (\<lambda>mb. feature_column (prefix_of ?P (snd mb)) (fst mb))
         (List.product metrics (features_blocks ?L rs))"
    unfolding features_columns_def by (rule concat_map_product)
  also have "\<dots> = map (\<lambda>mb. feature_column (prefix_of prefixes_map (snd mb)) (fst mb))
         (List.product metrics (features_blocks ?L rs))"
  proof (rule map_cong [OF refl])
    fix mb assume "mb \<in> set (List.product metrics (features_blocks ?L rs))"
    then have n: "snd mb \<in> set (features_blocks ?L rs)" by auto
    show "feature_column (prefix_of ?P (snd mb)) (fst mb)
        = feature_column (prefix_of prefixes_map (snd mb)) (fst mb)"
      using features_blocks_known(3) [OF assms n] by simp
  qed
  finally show ?thesis .
qed

lemma known_column_inj_on:
  assumes "\<forall>mb \<in> A. snd mb \<in> set (map fst prefixes_map)"
  shows "inj_on (\<lambda>mb. feature_column (prefix_of prefixes_map (snd mb)) (fst mb)) A"
proof (rule inj_onI)
  fix x y assume "x \<in> A" "y \<in> A"
    and "feature_column (prefix_of prefixes_map (snd x)) (fst x)
       = feature_column (prefix_of prefixes_map (snd y)) (fst y)"
  then have "snd x = snd y \<and> fst x = fst y"
    using assms by (intro known_column_inj) auto
  then show "x = y" by (simp add: prod_eq_iff)
qed


lemma astype_int32_untouched [simp]:
  "astype_int32 from_float (untouched_value m) = untouched_value m"
  by (simp add: astype_int32_def in_int32_def untouched_value_def)

lemma joined_cells_known:
  assumes "known_blocks bs"
  shows "joined_cells (generate_prefixes bs) (build_action_lookup bs) rs s
     = map (\<lambda>mb. (feature_column (prefix_of prefixes_map (snd mb)) (fst mb),
                    if s \<in> set (features_index (build_action_lookup bs) rs)
                    then Some (astype_int32 (pivot_is_float (build_action_lookup bs) rs)
                                 (fillna (untouched_value (fst mb))
                                    (pivot_cell (build_action_lookup bs) rs (fst mb) s (snd mb))))
                    else None))
         (List.product metrics (features_blocks (build_action_lookup bs) rs))"
  by (simp add: joined_cells_def features_row_known [OF assms] features_columns_known [OF assms]
        comp_def)

lemma joined_lookup:
  assumes "known_blocks bs" "n \<in> set (map fst prefixes_map)"
  shows "map_of (joined_cells (generate_prefixes bs) (build_action_lookup bs) rs s)
           (feature_column (prefix_of prefixes_map n) m)
     = (if n \<in> set (features_blocks (build_action_lookup bs) rs)
        then Some (if s \<in> set (features_index (build_action_lookup bs) rs)
                   then Some (astype_int32 (pivot_is_float (build_action_lookup bs) rs)
                                (fillna (untouched_value m)
                                   (pivot_cell (build_action_lookup bs) rs m s n)))
                   else None)
        else None)"
proof -
  let ?L = "build_action_lookup bs"
  let ?xs = "List.product metrics (features_blocks ?L rs)"
  let ?F = "\<lambda>mb. feature_column (prefix_of prefixes_map (snd mb)) (fst mb)"
  have "\<forall>mb \<in> insert (m, n) (set ?xs). snd mb \<in> set (map fst prefixes_map)"
    using assms(2) features_blocks_known(2) [OF assms(1)] by auto
  then have inj: "inj_on ?F (insert (m, n) (set ?xs))"
    by (rule known_column_inj_on)
  have mem: "((m, n) \<in> set ?xs) = (n \<in> set (features_blocks ?L rs))"
    by (simp add: metrics_all)
  show ?thesis
    unfolding joined_cells_known [OF assms(1)]
    using map_of_map_inj [OF inj, where g = "\<lambda>mb. if s \<in> set (features_index ?L rs)
                    then Some (astype_int32 (pivot_is_float ?L rs)
                      (fillna (untouched_value (fst mb)) (pivot_cell ?L rs (fst mb) s (snd mb))))
                    else None"]
    by (simp add: mem metrics_all)
qed

lemma fill_plan_entry:
  "set (map (\<lambda>m. (feature_column p m, 0))
          [Count, Success_count, Review_count, Dur_sec, Click_count_sum, Dbl_dur_sec,
           Dbl_count_sum]
        @ [(feature_column p Max_step, - 1)])
     = (\<lambda>m. (feature_column p m, untouched_value m)) ` set metrics"
  by (simp add: metrics_def untouched_value_def insert_commute)

lemma fill_plan_set:
  "set (fill_plan P)
     = (\<Union>p \<in> set (map snd P). (\<lambda>m. (feature_column p m, untouched_value m)) ` UNIV)"
proof -
  have u: "set metrics = UNIV" using metrics_all by auto
  have "set (fill_plan P)
      = (\<Union>p \<in> set (map snd P). set (map (\<lambda>m. (feature_column p m, 0))
          [Count, Success_count, Review_count, Dur_sec, Click_count_sum, Dbl_dur_sec,
           Dbl_count_sum]
        @ [(feature_column p Max_step, - 1)]))"
    unfolding fill_plan_def by (simp only: set_concat set_map image_image)
  then show ?thesis by (simp only: fill_plan_entry u)
qed

lemma fill_plan_names:
  "fst ` set (fill_plan P) = (\<lambda>pm. feature_column (fst pm) (snd pm)) ` (set (map snd P) \<times> UNIV)"
  unfolding fill_plan_set by force

lemma fill_plan_defaults:
  assumes "set (map snd P) \<subseteq> set (map snd prefixes_map)"
  shows "\<forall>cd \<in> set (fill_plan P). snd cd = fill_value (fst cd)"
proof
  fix cd assume "cd \<in> set (fill_plan P)"
  then obtain p m where p: "p \<in> set (map snd P)"
    and cd: "cd = (feature_column p m, untouched_value m)"
    unfolding fill_plan_set by blast
  have kp: "p \<in> set (map snd prefixes_map)" using p assms by auto
  then show "snd cd = fill_value (fst cd)"
    by (simp add: cd feature_column_fill_value)
qed

lemma generate_prefixes_values:
  assumes "known_blocks bs"
  shows "set (map snd (generate_prefixes bs)) = (\<lambda>b. prefix_of prefixes_map (block_name b)) ` set bs"
    and "set (map snd (generate_prefixes bs)) \<subseteq> set (map snd prefixes_map)"
proof -
  show a: "set (map snd (generate_prefixes bs)) = (\<lambda>b. prefix_of prefixes_map (block_name b)) ` set bs"
    by (simp add: generate_prefixes_known [OF assms] comp_def)
  show "set (map snd (generate_prefixes bs)) \<subseteq> set (map snd prefixes_map)"
  proof
    fix p assume "p \<in> set (map snd (generate_prefixes bs))"
    then obtain b where b: "b \<in> set bs" and pb: "p = prefix_of prefixes_map (block_name b)"
      unfolding a by auto
    have "block_name b \<in> set (map fst prefixes_map)"
      using b assms by (auto simp: known_blocks_def)
    then show "p \<in> set (map snd prefixes_map)"
      unfolding pb by (rule known_prefix_mem)
  qed
qed

lemma final_cell:
  assumes "known_blocks bs" "b \<in> set bs"
  shows "cell_value
           (fold fill_column (fill_plan (generate_prefixes bs))
              (joined_cells (generate_prefixes bs) (build_action_lookup bs) rs s))
           (feature_column (prefix_of (generate_prefixes bs) (block_name b)) m)
     = Some (Some (case pivot_cell (build_action_lookup bs) rs m s (block_name b) of
                     None \<Rightarrow> untouched_value m
                   | Some v \<Rightarrow> astype_int32 (pivot_is_float (build_action_lookup bs) rs) v))"
proof -
  let ?L = "build_action_lookup bs" and ?P = "generate_prefixes bs"
  let ?n = "block_name b"
  let ?col = "feature_column (prefix_of prefixes_map ?n) m"
  have kn: "?n \<in> set (map fst prefixes_map)"
    using assms by (auto simp: known_blocks_def)
  have col: "feature_column (prefix_of ?P ?n) m = ?col"
    using prefix_of_generate_prefixes [OF assms] by simp
  have dflt: "\<forall>cd \<in> set (fill_plan ?P). snd cd = fill_value (fst cd)"
    using generate_prefixes_values(2) [OF assms(1)] by (rule fill_plan_defaults)
  have "prefix_of prefixes_map ?n \<in> set (map snd ?P)"
    using generate_prefixes_values(1) [OF assms(1)] assms(2) by auto
  then have inplan: "?col \<in> fst ` set (fill_plan ?P)"
    unfolding fill_plan_names by force
  have fv: "fill_value ?col = untouched_value m"
    using kn by (intro feature_column_fill_value known_prefix_mem)
  have "map_of (fold fill_column (fill_plan ?P) (joined_cells ?P ?L rs s)) ?col
      = Some (Some (fillna (untouched_value m)
          (case map_of (joined_cells ?P ?L rs s) ?col of None \<Rightarrow> None | Some v \<Rightarrow> v)))"
    using fold_fill_column_lookup [OF dflt, of "joined_cells ?P ?L rs s" ?col] inplan fv by simp
  also have "fillna (untouched_value m)
          (case map_of (joined_cells ?P ?L rs s) ?col of None \<Rightarrow> None | Some v \<Rightarrow> v)
      = (case pivot_cell ?L rs m s ?n of None \<Rightarrow> untouched_value m
         | Some v \<Rightarrow> astype_int32 (pivot_is_float ?L rs) v)"
  proof (cases "?n \<in> set (features_blocks ?L rs) \<and> s \<in> set (features_index ?L rs)")
    case True
    then show ?thesis
      by (simp add: joined_lookup [OF assms(1) kn] fillna_def split: option.splits)
  next
    case False
    then have "block_rows ?L rs s ?n = []"
      using block_rows_no_block block_rows_no_session by blast
    then have "pivot_cell ?L rs m s ?n = None" by (rule pivot_cell_untouched)
    with False show ?thesis
      by (auto simp: joined_lookup [OF assms(1) kn] fillna_def)
  qed
  finally show ?thesis by (simp add: cell_value_def col)
qed


text \<open>The names of the cells of a row: those of the pivots, then those the last fill
  creates; together the eight columns of every block of the taxonomy, each once.\<close>

lemma joined_names:
  assumes "known_blocks bs"
  shows "map fst (joined_cells (generate_prefixes bs) (build_action_lookup bs) rs s)
     = map (\<lambda>mb. feature_column (prefix_of prefixes_map (snd mb)) (fst mb))
         (List.product metrics (features_blocks (build_action_lookup bs) rs))"
  by (simp add: joined_cells_known [OF assms] comp_def)

lemma joined_names_distinct:
  assumes "known_blocks bs"
  shows "distinct (map fst (joined_cells (generate_prefixes bs) (build_action_lookup bs) rs s))"
proof -
  let ?xs = "List.product metrics (features_blocks (build_action_lookup bs) rs)"
  have d: "distinct ?xs"
    by (simp add: distinct_product metrics_distinct features_blocks_def)
  have "\<forall>mb \<in> set ?xs. snd mb \<in> set (map fst prefixes_map)"
    using features_blocks_known(2) [OF assms] by auto
  then have "inj_on (\<lambda>mb. feature_column (prefix_of prefixes_map (snd mb)) (fst mb)) (set ?xs)"
    by (rule known_column_inj_on)
  with d show ?thesis
    unfolding joined_names [OF assms] by (simp add: distinct_map)
qed

lemma final_names:
  assumes "known_blocks bs"
  shows "set (map fst (fold fill_column (fill_plan (generate_prefixes bs))
                 (joined_cells (generate_prefixes bs) (build_action_lookup bs) rs s)))
     = set (map (\<lambda>bm. feature_column (prefix_of prefixes_map (block_name (fst bm))) (snd bm))
              (List.product bs metrics))"
proof -
  let ?G = "\<lambda>bm. feature_column (prefix_of prefixes_map (block_name (fst bm))) (snd bm)"
  have u: "set metrics = UNIV" using metrics_all by auto
  have plan: "fst ` set (fill_plan (generate_prefixes bs)) = ?G ` (set bs \<times> UNIV)"
    unfolding fill_plan_names generate_prefixes_values(1) [OF assms] by force
  have "set (map fst (joined_cells (generate_prefixes bs) (build_action_lookup bs) rs s))
      \<subseteq> ?G ` (set bs \<times> UNIV)"
  proof
    fix c assume "c \<in> set (map fst (joined_cells (generate_prefixes bs) (build_action_lookup bs) rs s))"
    then obtain m n where n: "n \<in> set (features_blocks (build_action_lookup bs) rs)"
      and c: "c = feature_column (prefix_of prefixes_map n) m"
      unfolding joined_names [OF assms] by auto
    from features_blocks_known(1) [OF assms n] obtain b where "b \<in> set bs" "n = block_name b"
      by auto
    then have "c = ?G (b, m)" "(b, m) \<in> set bs \<times> UNIV" using c by simp_all
    then show "c \<in> ?G ` (set bs \<times> UNIV)" by (rule image_eqI)
  qed
  then show ?thesis
    unfolding fold_fill_column_names plan by (simp add: u Un_absorb1)
qed

lemma block_columns_distinct:
  assumes "known_blocks bs"
  shows "distinct (map (\<lambda>bm. feature_column (prefix_of prefixes_map (block_name (fst bm))) (snd bm))
                     (List.product bs metrics))"
proof -
  have dn: "distinct (map block_name bs)" and kn: "set (map block_name bs) \<subseteq> set (map fst prefixes_map)"
    using assms by (simp_all add: known_blocks_def)
  have db: "distinct bs" using dn by (simp add: distinct_map)
  have ib: "inj_on block_name (set bs)" using dn by (simp add: distinct_map)
  have "inj_on (\<lambda>bm. feature_column (prefix_of prefixes_map (block_name (fst bm))) (snd bm))
          (set (List.product bs metrics))"
  proof (rule inj_onI)
    fix x y assume x: "x \<in> set (List.product bs metrics)" and y: "y \<in> set (List.product bs metrics)"
      and eq: "feature_column (prefix_of prefixes_map (block_name (fst x))) (snd x)
             = feature_column (prefix_of prefixes_map (block_name (fst y))) (snd y)"
    have kx: "block_name (fst x) \<in> set (map fst prefixes_map)" using x kn by auto
    have ky: "block_name (fst y) \<in> set (map fst prefixes_map)" using y kn by auto
    from known_column_inj [OF kx ky eq]
    have "block_name (fst x) = block_name (fst y)" "snd x = snd y" by simp_all
    moreover have "fst x \<in> set bs" "fst y \<in> set bs" using x y by auto
    ultimately have "fst x = fst y" "snd x = snd y" using ib by (auto dest: inj_onD)
    then show "x = y" by (simp add: prod_eq_iff)
  qed
  then show ?thesis
    by (simp add: distinct_map distinct_product db metrics_distinct)
qed

lemma final_distinct:
  assumes "known_blocks bs"
  shows "distinct (map fst (fold fill_column (fill_plan (generate_prefixes bs))
                 (joined_cells (generate_prefixes bs) (build_action_lookup bs) rs s)))"
  using joined_names_distinct [OF assms] by (rule fold_fill_column_distinct)

lemma final_length:
  assumes "known_blocks bs"
  shows "length (fold fill_column (fill_plan (generate_prefixes bs))
                 (joined_cells (generate_prefixes bs) (build_action_lookup bs) rs s))
     = 8 * length bs"
proof -
  let ?cells = "fold fill_column (fill_plan (generate_prefixes bs))
                 (joined_cells (generate_prefixes bs) (build_action_lookup bs) rs s)"
  let ?G = "\<lambda>bm. feature_column (prefix_of prefixes_map (block_name (fst bm))) (snd bm)"
  have "length ?cells = length (map fst ?cells)" by simp
  also have "\<dots> = card (set (map fst ?cells))"
    using final_distinct [OF assms] by (rule distinct_card [symmetric])
  also have "\<dots> = card (set (map ?G (List.product bs metrics)))"
    by (simp only: final_names [OF assms])
  also have "\<dots> = length (map ?G (List.product bs metrics))"
    using block_columns_distinct [OF assms] by (rule distinct_card)
  also have "\<dots> = 8 * length bs"
    by (simp add: metrics_def)
  finally show ?thesis .
qed

lemma final_non_null:
  assumes "known_blocks bs"
    and "cv \<in> set (fold fill_column (fill_plan (generate_prefixes bs))
                 (joined_cells (generate_prefixes bs) (build_action_lookup bs) rs s))"
  shows "snd cv \<noteq> None"
proof -
  let ?cells = "fold fill_column (fill_plan (generate_prefixes bs))
                 (joined_cells (generate_prefixes bs) (build_action_lookup bs) rs s)"
  have "fst cv \<in> set (map fst ?cells)" using assms(2) by (simp add: image_iff) blast
  then obtain b m where b: "b \<in> set bs"
    and c: "fst cv = feature_column (prefix_of prefixes_map (block_name b)) m"
    unfolding final_names [OF assms(1)] by auto
  have "map_of ?cells (fst cv) = Some (snd cv)"
    using final_distinct [OF assms(1)] assms(2) by simp
  moreover have "\<exists>v. map_of ?cells (fst cv) = Some (Some v)"
    using final_cell [OF assms(1) b, of rs s m]
    by (simp add: cell_value_def c prefix_of_generate_prefixes [OF assms(1) b])
  ultimately show ?thesis by auto
qed

lemma session_agg_ids:
  "map agg_session_id (session_agg rs) = sort (remdups (map global_session_id rs))"
  by (simp add: session_agg_def Let_def comp_def)

lemma session_agg_duration:
  assumes "a \<in> set (session_agg rs)"
  shows "sess_dur_sec a
     = astype_int32 False
         (sum_list (map duration_seconds (session_rows (agg_session_id a) (sort_rows rs))))"
  using assms by (auto simp: session_agg_def Let_def)

text \<open>
  Claim C3. On a table that is not empty and has the required columns, with a taxonomy
  whose blocks are blocks of the prefix table, each once, the aggregator returns a table
  with exactly one row for every session id of the input, in ascending order, also for a
  session none of whose events is in a block. Every row has the session duration, the sum
  of the durations of the session as a 32-bit integer, and \<open>8\<close> feature cells for every
  block of the taxonomy, \<open>8 * 17\<close> for the seventeen blocks of the prefix table, under
  distinct names. No cell is null: the cell of a block and a metric holds the aggregate
  over the events of the session in the block, as a 32-bit integer, and for a block the
  session never touched it holds 0, or \<open>-1\<close> for \<open>max_step\<close>.
\<close>

theorem transform_rows_complete:
  assumes "transform_input df" and "known_blocks blocks_data"
  shows "\<exists>out. transform blocks_data df = Inr out
     \<and> map (\<lambda>ac. agg_session_id (fst ac)) (feature_rows out)
         = sort (remdups (map global_session_id (rows df)))
     \<and> (\<forall>ac \<in> set (feature_rows out).
          sess_dur_sec (fst ac)
            = astype_int32 False (sum_list (map duration_seconds
                (session_rows (agg_session_id (fst ac)) (sort_rows (rows df)))))
          \<and> length (snd ac) = 8 * length blocks_data
          \<and> distinct (map fst (snd ac))
          \<and> (\<forall>cv \<in> set (snd ac). snd cv \<noteq> None)
          \<and> (\<forall>b \<in> set blocks_data. \<forall>m.
               cell_value (snd ac)
                 (feature_column (prefix_of (generate_prefixes blocks_data) (block_name b)) m)
               = Some (Some (case pivot_cell (build_action_lookup blocks_data) (rows df) m
                                    (agg_session_id (fst ac)) (block_name b) of
                               None \<Rightarrow> untouched_value m
                             | Some v \<Rightarrow>
                                 astype_int32
                                   (pivot_is_float (build_action_lookup blocks_data) (rows df))
                                   v))))"
proof -
  let ?P = "generate_prefixes blocks_data" and ?L = "build_action_lookup blocks_data"
  let ?cells = "\<lambda>s. fold fill_column (fill_plan ?P) (joined_cells ?P ?L (rows df) s)"
  let ?out = "\<lparr>context_columns =
                  filter (\<lambda>c. c \<in> set (columns df))
                    [Event_time, Device_id, Session_no, Global_session_id],
               feature_rows = map (\<lambda>a. (a, ?cells (agg_session_id a))) (session_agg (rows df))\<rparr>"
  have run: "transform blocks_data df = Inr ?out"
    using assms(1) by (simp add: transform_def transform_input_def Let_def)
  have ids: "map (\<lambda>ac. agg_session_id (fst ac)) (feature_rows ?out)
      = sort (remdups (map global_session_id (rows df)))"
    using session_agg_ids [of "rows df"] by (simp add: comp_def)
  have each: "\<forall>ac \<in> set (feature_rows ?out).
          sess_dur_sec (fst ac)
            = astype_int32 False (sum_list (map duration_seconds
                (session_rows (agg_session_id (fst ac)) (sort_rows (rows df)))))
          \<and> length (snd ac) = 8 * length blocks_data
          \<and> distinct (map fst (snd ac))
          \<and> (\<forall>cv \<in> set (snd ac). snd cv \<noteq> None)
          \<and> (\<forall>b \<in> set blocks_data. \<forall>m.
               cell_value (snd ac) (feature_column (prefix_of ?P (block_name b)) m)
               = Some (Some (case pivot_cell ?L (rows df) m (agg_session_id (fst ac))
                                    (block_name b) of
                               None \<Rightarrow> untouched_value m
                             | Some v \<Rightarrow> astype_int32 (pivot_is_float ?L (rows df)) v)))"
  proof
    fix ac assume "ac \<in> set (feature_rows ?out)"
    then obtain a where a: "a \<in> set (session_agg (rows df))"
      and ac: "ac = (a, ?cells (agg_session_id a))" by auto
    show "sess_dur_sec (fst ac)
            = astype_int32 False (sum_list (map duration_seconds
                (session_rows (agg_session_id (fst ac)) (sort_rows (rows df)))))
          \<and> length (snd ac) = 8 * length blocks_data
          \<and> distinct (map fst (snd ac))
          \<and> (\<forall>cv \<in> set (snd ac). snd cv \<noteq> None)
          \<and> (\<forall>b \<in> set blocks_data. \<forall>m.
               cell_value (snd ac) (feature_column (prefix_of ?P (block_name b)) m)
               = Some (Some (case pivot_cell ?L (rows df) m (agg_session_id (fst ac))
                                    (block_name b) of
                               None \<Rightarrow> untouched_value m
                             | Some v \<Rightarrow> astype_int32 (pivot_is_float ?L (rows df)) v)))"
      unfolding ac fst_conv snd_conv
      using session_agg_duration [OF a] final_length [OF assms(2)] final_distinct [OF assms(2)]
        final_non_null [OF assms(2)] final_cell [OF assms(2)]
      by blast
  qed
  from run ids each show ?thesis by blast
qed

lemma example_input: "transform_input example_sessions"
  by (simp add: transform_input_def example_sessions_def)

lemma example_block_names: "map block_name example_blocks = map fst prefixes_map"
  by (simp add: example_blocks_def comp_def)

lemma example_known: "known_blocks example_blocks"
  unfolding known_blocks_def example_block_names
  using prefixes_map_names_distinct by simp

lemma example_length: "length example_blocks = 17"
  by (simp add: example_blocks_def prefixes_map_def)

lemma example_session_ids:
  "sort (remdups (map global_session_id (rows example_sessions))) = [1, 2, 3]"
  by (simp add: example_sessions_def example_row_def)

lemma example_durations:
  "map (\<lambda>s. astype_int32 False
              (sum_list (map duration_seconds (session_rows s (sort_rows (rows example_sessions))))))
     [1, 2, 3] = [4, 6, 0]"
  by code_simp

lemma example_profile_prefix:
  "prefix_of prefixes_map (block_name (example_blocks ! 2)) = ''profile''"
  by code_simp

lemma example_nav_prefix:
  "prefix_of prefixes_map (block_name (example_blocks ! 3)) = ''nav''"
  by code_simp

lemma example_profile_count:
  "map (\<lambda>s. case pivot_cell (build_action_lookup example_blocks) (rows example_sessions) Count s
                   (block_name (example_blocks ! 2)) of
               None \<Rightarrow> untouched_value Count
             | Some v \<Rightarrow> astype_int32
                 (pivot_is_float (build_action_lookup example_blocks) (rows example_sessions)) v)
       [1, 2, 3] = [2, 0, 0]"
  by code_simp


lemma example_profile_max_step:
  "map (\<lambda>s. case pivot_cell (build_action_lookup example_blocks) (rows example_sessions) Max_step s
                   (block_name (example_blocks ! 2)) of
               None \<Rightarrow> untouched_value Max_step
             | Some v \<Rightarrow> astype_int32
                 (pivot_is_float (build_action_lookup example_blocks) (rows example_sessions)) v)
       [1, 2, 3] = [3, - 1, - 1]"
  by code_simp

lemma example_nav_count:
  "map (\<lambda>s. case pivot_cell (build_action_lookup example_blocks) (rows example_sessions) Count s
                   (block_name (example_blocks ! 3)) of
               None \<Rightarrow> untouched_value Count
             | Some v \<Rightarrow> astype_int32
                 (pivot_is_float (build_action_lookup example_blocks) (rows example_sessions)) v)
       [1, 2, 3] = [0, 0, 1]"
  by code_simp

lemma summary_of_rows:
  assumes "map (\<lambda>ac. agg_session_id (fst ac)) (feature_rows out) = ids"
    and "\<forall>ac \<in> set (feature_rows out).
           sess_dur_sec (fst ac) = f (agg_session_id (fst ac)) \<and> length (snd ac) = n"
  shows "table_summary (Inr out) = map (\<lambda>s. (s, f s, n)) ids"
proof -
  have "table_summary (Inr out)
      = map (\<lambda>ac. (agg_session_id (fst ac), f (agg_session_id (fst ac)), n)) (feature_rows out)"
    using assms(2) by (simp add: table_summary_def)
  also have "\<dots> = map (\<lambda>s. (s, f s, n)) (map (\<lambda>ac. agg_session_id (fst ac)) (feature_rows out))"
    by (simp add: comp_def)
  finally show ?thesis by (simp only: assms(1))
qed

lemma column_of_rows:
  assumes "map (\<lambda>ac. agg_session_id (fst ac)) (feature_rows out) = ids"
    and "\<forall>ac \<in> set (feature_rows out). cell_value (snd ac) col = g (agg_session_id (fst ac))"
  shows "column_values (Inr out) col = map g ids"
proof -
  have "column_values (Inr out) col
      = map (\<lambda>ac. g (agg_session_id (fst ac))) (feature_rows out)"
    using assms(2) by (simp add: column_values_def)
  also have "\<dots> = map g (map (\<lambda>ac. agg_session_id (fst ac)) (feature_rows out))"
    by (simp add: comp_def)
  finally show ?thesis by (simp only: assms(1))
qed

text \<open>
  Seventeen blocks and three sessions: three rows with 136 feature cells each and the
  session durations 4, 6 and 0. Session 1 has two profile events up to step 3; sessions 2
  and 3 never touch the profile block and get 0 and \<open>-1\<close>; session 2 touches no block at
  all; session 3 has one navigation event.
\<close>

theorem transform_rows_complete_witness:
  "transform_input example_sessions \<and> known_blocks example_blocks
   \<and> table_summary (transform example_blocks example_sessions)
       = [(1, 4, 136), (2, 6, 136), (3, 0, 136)]
   \<and> column_values (transform example_blocks example_sessions) ''profile_count''
       = [Some (Some 2), Some (Some 0), Some (Some 0)]
   \<and> column_values (transform example_blocks example_sessions) ''profile_max_step''
       = [Some (Some 3), Some (Some (- 1)), Some (Some (- 1))]
   \<and> column_values (transform example_blocks example_sessions) ''nav_count''
       = [Some (Some 0), Some (Some 0), Some (Some 1)]"
proof -
  let ?L = "build_action_lookup example_blocks" and ?P = "generate_prefixes example_blocks"
  let ?rs = "rows example_sessions"
  let ?dur = "\<lambda>s. astype_int32 False
                     (sum_list (map duration_seconds (session_rows s (sort_rows ?rs))))"
  let ?cell = "\<lambda>b m s. case pivot_cell ?L ?rs m s (block_name b) of
                           None \<Rightarrow> untouched_value m
                         | Some v \<Rightarrow> astype_int32 (pivot_is_float ?L ?rs) v"
  let ?val = "\<lambda>b m s. Some (Some (?cell b m s))"
  from transform_rows_complete [OF example_input example_known]
  obtain out where run: "transform example_blocks example_sessions = Inr out"
    and ids: "map (\<lambda>ac. agg_session_id (fst ac)) (feature_rows out)
            = sort (remdups (map global_session_id ?rs))"
    and each: "\<forall>ac \<in> set (feature_rows out).
          sess_dur_sec (fst ac) = ?dur (agg_session_id (fst ac))
          \<and> length (snd ac) = 8 * length example_blocks
          \<and> distinct (map fst (snd ac))
          \<and> (\<forall>cv \<in> set (snd ac). snd cv \<noteq> None)
          \<and> (\<forall>b \<in> set example_blocks. \<forall>m.
               cell_value (snd ac) (feature_column (prefix_of ?P (block_name b)) m)
               = ?val b m (agg_session_id (fst ac)))"
    by blast
  have ids3: "map (\<lambda>ac. agg_session_id (fst ac)) (feature_rows out) = [1, 2, 3]"
    using ids by (simp only: example_session_ids)
  have profile: "example_blocks ! 2 \<in> set example_blocks"
    and nav: "example_blocks ! 3 \<in> set example_blocks"
    by (simp_all add: example_length)
  have pp: "prefix_of ?P (block_name (example_blocks ! 2)) = ''profile''"
    using prefix_of_generate_prefixes [OF example_known profile]
    by (simp only: example_profile_prefix)
  have np: "prefix_of ?P (block_name (example_blocks ! 3)) = ''nav''"
    using prefix_of_generate_prefixes [OF example_known nav]
    by (simp only: example_nav_prefix)
  have "table_summary (Inr out) = map (\<lambda>s. (s, ?dur s, 8 * length example_blocks)) [1, 2, 3]"
    using ids3 each by (intro summary_of_rows) simp_all
  then have summary: "table_summary (transform example_blocks example_sessions)
      = [(1, 4, 136), (2, 6, 136), (3, 0, 136)]"
    using example_durations by (simp add: run example_length)
  have "\<forall>ac \<in> set (feature_rows out).
      cell_value (snd ac) (feature_column ''profile'' Count)
      = ?val (example_blocks ! 2) Count (agg_session_id (fst ac))"
    using each profile pp by metis
  with ids3 have "column_values (Inr out) (feature_column ''profile'' Count)
      = map (?val (example_blocks ! 2) Count) [1, 2, 3]"
    by (rule column_of_rows)
  then have c1: "column_values (transform example_blocks example_sessions) ''profile_count''
      = [Some (Some 2), Some (Some 0), Some (Some 0)]"
    using example_profile_count
    by (simp add: run feature_column_def metric_name_def)
  have "\<forall>ac \<in> set (feature_rows out).
      cell_value (snd ac) (feature_column ''profile'' Max_step)
      = ?val (example_blocks ! 2) Max_step (agg_session_id (fst ac))"
    using each profile pp by metis
  with ids3 have "column_values (Inr out) (feature_column ''profile'' Max_step)
      = map (?val (example_blocks ! 2) Max_step) [1, 2, 3]"
    by (rule column_of_rows)
  then have c2: "column_values (transform example_blocks example_sessions) ''profile_max_step''
      = [Some (Some 3), Some (Some (- 1)), Some (Some (- 1))]"
    using example_profile_max_step
    by (simp add: run feature_column_def metric_name_def)
  have "\<forall>ac \<in> set (feature_rows out).
      cell_value (snd ac) (feature_column ''nav'' Count)
      = ?val (example_blocks ! 3) Count (agg_session_id (fst ac))"
    using each nav np by metis
  with ids3 have "column_values (Inr out) (feature_column ''nav'' Count)
      = map (?val (example_blocks ! 3) Count) [1, 2, 3]"
    by (rule column_of_rows)
  then have c3: "column_values (transform example_blocks example_sessions) ''nav_count''
      = [Some (Some 0), Some (Some 0), Some (Some 1)]"
    using example_nav_count
    by (simp add: run feature_column_def metric_name_def)
  from example_input example_known summary c1 c2 c3 show ?thesis by blast
qed

end
